theory Spec2Isabelle
  imports Main "HOL-Library.Word" "HOL-Library.Multiset"
begin

section \<open>Data model\<close>

text \<open>
  The Go sources modelled here are the trace writer (package \<open>writer\<close>: \<open>handleTrace\<close>,
  \<open>flush\<close>, \<open>updateInfo\<close> and the sender-event loop started by \<open>Run\<close>), the span
  normalizer (package \<open>model\<close>: \<open>Normalize\<close>, \<open>NormalizeTrace\<close>,
  \<open>normMetricNameParse\<close>, \<open>isValidStatusCode\<close>) and the resource filter (package
  \<open>filters\<close>: \<open>Keep\<close>, \<open>compileRules\<close>, \<open>compileSearchReplace\<close>).

  Go's \<open>uint64\<close> and \<open>int64\<close> are \<open>64 word\<close>, whose sum wraps around as Go's does;
  the value of an \<open>int64\<close> is read with \<open>sint\<close>. A Go \<open>string\<close> is a byte sequence and \<open>len\<close>
  counts its bytes, as \<open>length\<close> does on \<open>string\<close>. A Go map is a partial function;
  a map that may be \<open>nil\<close> is an \<open>option\<close> of one, since writing to a \<open>nil\<close> map panics
  while reading from it yields the zero value. Calls to the logger change no state that
  the program reads and are left out.
\<close>

type_synonym bytes = "8 word list"

text \<open>
  Modelled from the spec: the declaration of \<open>model.Span\<close> is not among the sources. The
  fields are the ones the data model lists (TraceID, SpanID, ParentID, Service, Name,
  Resource, Start, Duration, Type, Meta, Metrics), with the types their uses in
  \<open>Normalize\<close> and \<open>NormalizeTrace\<close> require. A \<open>float64\<close> metric is kept as its 64-bit
  pattern; no function modelled here reads it.
\<close>

record span =
  TraceID :: "64 word"
  SpanID :: "64 word"
  ParentID :: "64 word"
  Service :: string
  Name :: string
  Resource :: string
  Start :: "64 word"
  Duration :: "64 word"
  Type :: string
  Meta :: "(string \<rightharpoonup> string) option"
  Metrics :: "(string \<rightharpoonup> 64 word) option"

type_synonym trace = "span list"

text \<open>
  Modelled from the spec: \<open>model.APITrace\<close> and the method \<open>Trace.APITrace\<close> are not
  among the sources. The spec describes an APITrace as the flat sequence of the spans of
  a trace, so the conversion keeps the spans and their order.
\<close>

type_synonym apiTrace = "span list"

definition APITrace :: "trace \<Rightarrow> apiTrace" where
  "APITrace t = t"

text \<open>
  Modelled from the spec: \<open>model.TracePayload\<close> is declared outside the sources; its
  fields are the three \<open>flush\<close> sets, which section 6 of the spec lists. \<open>Payload\<close> and
  \<open>NewPayload\<close> (package \<open>writer\<close>, another file) are the \<open>Payload(bytes, headers)\<close>
  of the spec. The fields \<open>Traces\<close> and \<open>Bytes\<close> carry a suffix here: two counters of
  \<open>TraceWriterInfo\<close> have the same names.
\<close>

record tracePayload =
  HostName :: string
  Env :: string
  Traces_payload :: "apiTrace list"

record payload =
  Bytes_payload :: bytes
  Headers :: "string \<rightharpoonup> string"

definition NewPayload :: "bytes \<Rightarrow> (string \<rightharpoonup> string) \<Rightarrow> payload" where
  "NewPayload b h = \<lparr>Bytes_payload = b, Headers = h\<rparr>"

text \<open>
  Modelled from the spec: \<open>info.TraceWriterInfo\<close> is declared outside the sources. It
  holds the six counters of section 3, each an \<open>int64\<close> that the writer changes with
  \<open>atomic.AddInt64\<close> and \<open>atomic.SwapInt64\<close>.
\<close>

record traceWriterInfo =
  Payloads :: "64 word"
  Traces :: "64 word"
  Spans :: "64 word"
  Bytes :: "64 word"
  Retries :: "64 word"
  Errors :: "64 word"

text \<open>
  \<open>TraceWriterConfig\<close>. The two periods are \<open>time.Duration\<close> values (nanoseconds); the
  stats client of the configuration is modelled by the calls it has received, kept in the
  writer's state below.
\<close>

record traceWriterConfig =
  MaxSpansPerPayload :: int
  FlushPeriod :: "64 word"
  UpdateInfoPeriod :: "64 word"

text \<open>
  Modelled from the spec: the stats client is outside the sources; its interface is
  \<open>Count(name, value, tags, rate)\<close> and \<open>Gauge(name, value, tags, rate)\<close>. The model
  records the calls it receives, by name and value: every call of the writer passes
  \<open>nil\<close> tags and rate 1. \<open>Gauge\<close> is called with \<open>SendTime.Seconds()\<close>, a
  \<open>float64\<close>; the model records the duration it is computed from.
\<close>

datatype statsCall = Count string "64 word" | Gauge string "64 word"

text \<open>
  \<open>TraceWriter\<close>. \<open>spansInBuffer\<close> and \<open>MaxSpansPerPayload\<close> are Go \<open>int\<close>s, modelled
  as unbounded integers: the sums \<open>handleTrace\<close> computes stay far below \<open>2^63\<close> for any
  slice that fits in memory. \<open>payloadSender\<close> holds the payloads handed to
  \<open>payloadSender.Send\<close>, oldest first; \<open>statsClient\<close> the calls made on
  \<open>conf.StatsClient\<close>; \<open>infoTraceWriter\<close> the value last given to
  \<open>info.UpdateTraceWriterInfo\<close>, which is outside the sources and, by the spec, publishes
  the snapshot to an in-process registry.
\<close>

record traceWriter =
  hostName :: string
  env :: string
  conf :: traceWriterConfig
  stats :: traceWriterInfo
  traces :: "apiTrace list"
  spansInBuffer :: int
  payloadSender :: "payload list"
  statsClient :: "statsCall list"
  infoTraceWriter :: traceWriterInfo

text \<open>
  What the writer calls outside the sources: \<open>proto.Marshal\<close>, which returns the bytes
  or an error, and \<open>info.Languages\<close>.
\<close>

record extern =
  Marshal :: "tracePayload \<Rightarrow> string + bytes"
  Languages :: "string list"

section \<open>The trace writer\<close>

text \<open>\<open>strings.Join\<close>.\<close>

fun Join :: "string list \<Rightarrow> string \<Rightarrow> string" where
  "Join [] sep = []"
| "Join [a] sep = a"
| "Join (a # b # rest) sep = a @ sep @ Join (b # rest) sep"

text \<open>
  Modelled from the spec: the constant \<open>languageHeaderKey\<close> is declared outside the
  sources; the spec names the header \<open>X-Datadog-Trace-Languages\<close>.
\<close>

definition languageHeaderKey :: string where
  "languageHeaderKey = ''X-Datadog-Trace-Languages''"

definition flushHeaders :: "extern \<Rightarrow> string \<rightharpoonup> string" where
  "flushHeaders x =
     [languageHeaderKey \<mapsto> Join (Languages x) ''|'',
      ''Content-Type'' \<mapsto> ''application/x-protobuf'',
      ''Content-Encoding'' \<mapsto> ''identity'']"

text \<open>
  \<open>TraceWriter.flush\<close>. The two counters are added to before \<open>proto.Marshal\<close> is
  called; when it fails the function returns at once, before the lines that reset
  \<open>traces\<close> and \<open>spansInBuffer\<close>.
\<close>

definition flush :: "extern \<Rightarrow> traceWriter \<Rightarrow> traceWriter" where
  "flush x w =
    (let numTraces = length (traces w) in
     if numTraces = 0 then w
     else
       let w1 = w\<lparr>stats := (stats w)\<lparr>Traces := Traces (stats w) + of_nat numTraces,
                                        Spans := Spans (stats w) + word_of_int (spansInBuffer w)\<rparr>\<rparr>;
           tracePayload = \<lparr>HostName = hostName w1, Env = env w1, Traces_payload = traces w1\<rparr>
       in case Marshal x tracePayload of
            Inl err \<Rightarrow> w1
          | Inr serialized \<Rightarrow>
              let w2 = w1\<lparr>stats := (stats w1)\<lparr>Bytes := Bytes (stats w1) + of_nat (length serialized)\<rparr>\<rparr>;
                  p = NewPayload serialized (flushHeaders x)
              in w2\<lparr>payloadSender := payloadSender w2 @ [p], traces := [], spansInBuffer := 0\<rparr>)"

text \<open>
  The panics the modelled code can raise: a slice expression with a bound out of range and
  the explicit \<open>panic\<close> of \<open>handleTrace\<close>, an index out of range in
  \<open>normMetricNameParse\<close>, and an assignment to an entry of a \<open>nil\<close> map.
\<close>

datatype panic = SliceBoundsOutOfRange | SpansOverLimit | IndexOutOfRange | NilMapAssignment

text \<open>
  \<open>TraceWriter.handleTrace\<close>, on a trace that is not \<open>nil\<close> (\<open>Run\<close> skips a \<open>nil\<close>
  one). The function calls itself on the spans it split off, and
  nothing in it bounds the number of calls (with a cap of 0, or when \<open>flush\<close> keeps
  failing on a full buffer, each call splits at index 0 and passes the whole trace on).
  The result is therefore an \<open>option\<close>: \<open>None\<close> when the recursion never returns,
  \<open>Some (Inl p)\<close> when it panics and \<open>Some (Inr w')\<close> when it returns in state \<open>w'\<close>.
\<close>

partial_function (option) handleTrace :: "extern \<Rightarrow> traceWriter \<Rightarrow> trace \<Rightarrow> (panic + traceWriter) option" where
  "handleTrace x w trace =
    (if length trace = 0 then Some (Inr w)
     else
       let spanOverflow = spansInBuffer w + int (length trace) - MaxSpansPerPayload (conf w);
           splitIndex = int (length trace) - spanOverflow
       in if spanOverflow > 0 \<and> (splitIndex < 0 \<or> int (length trace) < splitIndex)
          then Some (Inl SliceBoundsOutOfRange)
          else
            let splitTrace = (if spanOverflow > 0 then drop (nat splitIndex) trace else []);
                trace' = (if spanOverflow > 0 then take (nat splitIndex) trace else trace);
                w1 = w\<lparr>traces := traces w @ [APITrace trace'],
                       spansInBuffer := spansInBuffer w + int (length trace')\<rparr>
            in if spansInBuffer w1 = MaxSpansPerPayload (conf w1)
               then (let w2 = flush x w1
                     in if length splitTrace > 0 then handleTrace x w2 splitTrace else Some (Inr w2))
               else if spansInBuffer w1 > MaxSpansPerPayload (conf w1)
               then Some (Inl SpansOverLimit)
               else if length splitTrace > 0 then handleTrace x w1 splitTrace else Some (Inr w1))"

text \<open>
  The two assignments by which \<open>handleTrace\<close> adds a trace to the buffer, as one step;
  the lemmas below unfold \<open>handleTrace\<close> in terms of it.
\<close>

definition bufferTrace :: "traceWriter \<Rightarrow> trace \<Rightarrow> traceWriter" where
  "bufferTrace w t =
     w\<lparr>traces := traces w @ [APITrace t], spansInBuffer := spansInBuffer w + int (length t)\<rparr>"

text \<open>
  A sequence of calls made by the writer's loop on its buffer: \<open>handleTrace\<close> for a trace
  received, \<open>flush\<close> on a tick or at exit. A panic ends the sequence.
\<close>

datatype call = HandleTrace trace | Flush

fun calls :: "extern \<Rightarrow> traceWriter \<Rightarrow> call list \<Rightarrow> (panic + traceWriter) option" where
  "calls x w [] = Some (Inr w)"
| "calls x w (HandleTrace t # cs) =
     (case handleTrace x w t of
        None \<Rightarrow> None
      | Some (Inl p) \<Rightarrow> Some (Inl p)
      | Some (Inr w') \<Rightarrow> calls x w' cs)"
| "calls x w (Flush # cs) = calls x (flush x w) cs"

text \<open>The spans of the traces a sequence of calls hands to \<open>handleTrace\<close>, in order.\<close>

fun ingested :: "call list \<Rightarrow> span list" where
  "ingested [] = []"
| "ingested (HandleTrace t # cs) = t @ ingested cs"
| "ingested (Flush # cs) = ingested cs"

text \<open>
  Payload \<open>p\<close> is what \<open>flush\<close> hands to the sender for the buffered traces \<open>b\<close>: its
  bytes are the serialization of the trace payload built from \<open>b\<close>, under the headers
  \<open>flush\<close> sets.
\<close>

definition carries :: "extern \<Rightarrow> traceWriter \<Rightarrow> payload \<Rightarrow> apiTrace list \<Rightarrow> bool" where
  "carries x w p b \<longleftrightarrow>
     Marshal x \<lparr>HostName = hostName w, Env = env w, Traces_payload = b\<rparr> = Inr (Bytes_payload p)
     \<and> Headers p = flushHeaders x"

text \<open>
  Between the states \<open>w\<close> and \<open>w'\<close> the sender has received one payload for each of the
  batches \<open>bs\<close> of buffered traces, in this order, and nothing else.
\<close>

definition emitted :: "extern \<Rightarrow> traceWriter \<Rightarrow> traceWriter \<Rightarrow> apiTrace list list \<Rightarrow> bool" where
  "emitted x w w' bs \<longleftrightarrow>
     (\<exists>ps. payloadSender w' = payloadSender w @ ps \<and> list_all2 (carries x w) ps bs)"

text \<open>
  Modelled from the spec: the event types of the sender are declared outside the
  sources. Section 4.4 lists the three variants with their fields, which are the fields
  the loop of \<open>Run\<close> reads. \<open>NilEvent\<close> is the \<open>nil\<close> interface value and
  \<open>OtherEvent\<close> any value of another type.
\<close>

record sendStats =
  SendTime :: "64 word"

datatype senderEvent =
    NilEvent
  | SenderSuccessEvent sendStats payload
  | SenderFailureEvent sendStats payload string
  | SenderRetryEvent int "64 word" string
  | OtherEvent

text \<open>One turn of the sender-event loop started by \<open>Run\<close>.\<close>

fun monitorEvent :: "traceWriter \<Rightarrow> senderEvent \<Rightarrow> traceWriter" where
  "monitorEvent w NilEvent = w"
| "monitorEvent w (SenderSuccessEvent sendStats p) =
     (let w1 = w\<lparr>statsClient := statsClient w @
                    [Gauge ''datadog.trace_agent.trace_writer.flush_duration'' (SendTime sendStats)]\<rparr>
      in w1\<lparr>stats := (stats w1)\<lparr>Payloads := Payloads (stats w1) + 1\<rparr>\<rparr>)"
| "monitorEvent w (SenderFailureEvent sendStats p err) =
     w\<lparr>stats := (stats w)\<lparr>Errors := Errors (stats w) + 1\<rparr>\<rparr>"
| "monitorEvent w (SenderRetryEvent retryNum retryDelay err) =
     w\<lparr>stats := (stats w)\<lparr>Retries := Retries (stats w) + 1\<rparr>\<rparr>"
| "monitorEvent w OtherEvent = w"

text \<open>The loop \<open>for event := range w.payloadSender.Monitor()\<close> over the events received.\<close>

definition monitor :: "traceWriter \<Rightarrow> senderEvent list \<Rightarrow> traceWriter" where
  "monitor w events = foldl monitorEvent w events"

text \<open>
  \<open>TraceWriter.updateInfo\<close>, run with no other goroutine adding to the counters in
  between: the six \<open>atomic.SwapInt64\<close> calls, the six \<open>Count\<close> calls, then
  \<open>info.UpdateTraceWriterInfo\<close>.
\<close>

definition updateInfo :: "traceWriter \<Rightarrow> traceWriter" where
  "updateInfo w =
    (let twInfo = \<lparr>Payloads = Payloads (stats w), Traces = Traces (stats w),
                   Spans = Spans (stats w), Bytes = Bytes (stats w),
                   Retries = Retries (stats w), Errors = Errors (stats w)\<rparr>;
         w1 = w\<lparr>stats := (stats w)\<lparr>Payloads := 0, Traces := 0, Spans := 0, Bytes := 0,
                                     Retries := 0, Errors := 0\<rparr>\<rparr>;
         w2 = w1\<lparr>statsClient := statsClient w1 @
                 [Count ''datadog.trace_agent.trace_writer.payloads'' (Payloads twInfo),
                  Count ''datadog.trace_agent.trace_writer.traces'' (Traces twInfo),
                  Count ''datadog.trace_agent.trace_writer.spans'' (Spans twInfo),
                  Count ''datadog.trace_agent.trace_writer.bytes'' (Bytes twInfo),
                  Count ''datadog.trace_agent.trace_writer.retries'' (Retries twInfo),
                  Count ''datadog.trace_agent.trace_writer.errors'' (Errors twInfo)]\<rparr>
     in w2\<lparr>infoTraceWriter := twInfo\<rparr>)"

text \<open>The kind of a sender event, to count the events of each kind in a sequence.\<close>

definition isSuccess :: "senderEvent \<Rightarrow> bool" where
  "isSuccess e = (case e of SenderSuccessEvent s p \<Rightarrow> True | _ \<Rightarrow> False)"

definition isFailure :: "senderEvent \<Rightarrow> bool" where
  "isFailure e = (case e of SenderFailureEvent s p err \<Rightarrow> True | _ \<Rightarrow> False)"

definition isRetry :: "senderEvent \<Rightarrow> bool" where
  "isRetry e = (case e of SenderRetryEvent n d err \<Rightarrow> True | _ \<Rightarrow> False)"

section \<open>The span normalizer\<close>

definition MaxServiceLen :: nat where "MaxServiceLen = 100"
definition MaxNameLen :: nat where "MaxNameLen = 100"
definition MaxTypeLen :: nat where "MaxTypeLen = 100"

text \<open>\<open>MaxEndDateOffset\<close>, ten minutes, and \<open>Year2000NanosecTS\<close>, both in nanoseconds.\<close>

definition MaxEndDateOffset :: int where
  "MaxEndDateOffset = 10 * 60 * 1000000000"

definition Year2000NanosecTS :: int where
  "Year2000NanosecTS = 946684800 * 1000000000"

text \<open>
  What the normalizer calls outside the sources: \<open>NormalizeTag\<close> (package \<open>model\<close>,
  another file) and the clock. \<open>Now\<close> is \<open>time.Now().UnixNano()\<close>; one value serves
  a whole call of \<open>NormalizeTrace\<close>.
\<close>

record normEnv =
  NormalizeTag :: "string \<Rightarrow> string"
  Now :: int

text \<open>Reading a map: \<open>m[k]\<close> yields the zero value for a missing key or a \<open>nil\<close> map.\<close>

definition metaLookup :: "(string \<rightharpoonup> string) option \<Rightarrow> string \<Rightarrow> string option" where
  "metaLookup m k = (case m of None \<Rightarrow> None | Some f \<Rightarrow> f k)"

definition metaGet :: "(string \<rightharpoonup> string) option \<Rightarrow> string \<Rightarrow> string" where
  "metaGet m k = (case metaLookup m k of None \<Rightarrow> [] | Some v \<Rightarrow> v)"

text \<open>Writing a map: \<open>m[k] = v\<close> panics when \<open>m\<close> is \<open>nil\<close>.\<close>

definition metaSet ::
  "(string \<rightharpoonup> string) option \<Rightarrow> string \<Rightarrow> string \<Rightarrow> panic + (string \<rightharpoonup> string) option" where
  "metaSet m k v = (case m of None \<Rightarrow> Inl NilMapAssignment | Some f \<Rightarrow> Inr (Some (f(k \<mapsto> v))))"

text \<open>\<open>delete(m, k)\<close> does nothing on a \<open>nil\<close> map.\<close>

definition metaDelete :: "(string \<rightharpoonup> string) option \<Rightarrow> string \<Rightarrow> (string \<rightharpoonup> string) option" where
  "metaDelete m k = (case m of None \<Rightarrow> None | Some f \<Rightarrow> Some (f(k := None)))"

definition isAlpha :: "char \<Rightarrow> bool" where
  "isAlpha b \<longleftrightarrow>
     (let n = (of_char b :: nat) in (97 \<le> n \<and> n \<le> 122) \<or> (65 \<le> n \<and> n \<le> 90))"

definition isAlphaNum :: "char \<Rightarrow> bool" where
  "isAlphaNum b \<longleftrightarrow> isAlpha b \<or> (let n = (of_char b :: nat) in 48 \<le> n \<and> n \<le> 57)"

text \<open>
  The second loop of \<open>normMetricNameParse\<close> over the bytes left, with the buffer
  \<open>res\<close>; \<open>ptr\<close> is always \<open>len(res)\<close>. Reading \<open>res[ptr-1]\<close> from an empty buffer is
  an index out of range.
\<close>

fun normLoop :: "string \<Rightarrow> string \<Rightarrow> panic + string" where
  "normLoop [] res = Inr res"
| "normLoop (b # bs) res =
     (if isAlphaNum b then normLoop bs (res @ [b])
      else if res = [] then Inl IndexOutOfRange
      else if b = CHR ''.'' then
        (if last res = CHR ''_'' then normLoop bs (butlast res @ [CHR ''.''])
         else normLoop bs (res @ [CHR ''.'']))
      else
        (if last res = CHR ''.'' \<or> last res = CHR ''_'' then normLoop bs res
         else normLoop bs (res @ [CHR ''_''])))"

definition normMetricNameParse :: "string \<Rightarrow> panic + (string \<times> bool)" where
  "normMetricNameParse name =
    (if name = [] \<or> length name > MaxNameLen then Inr (name, False)
     else
       let rest = dropWhile (\<lambda>b. \<not> isAlpha b) name
       in if rest = [] then Inr ([], False)
          else case normLoop rest [] of
                 Inl p \<Rightarrow> Inl p
               | Inr res \<Rightarrow>
                   if res = [] then Inl IndexOutOfRange
                   else if last res = CHR ''_'' then Inr (butlast res, True)
                   else Inr (res, True))"

text \<open>
  \<open>strconv.ParseUint(sc, 10, 64)\<close> succeeds on a non-empty string of decimal digits whose
  value is below \<open>2^64\<close>.
\<close>

definition isDigit :: "char \<Rightarrow> bool" where
  "isDigit b \<longleftrightarrow> (let n = (of_char b :: nat) in 48 \<le> n \<and> n \<le> 57)"

definition decimal :: "string \<Rightarrow> nat" where
  "decimal sc = foldl (\<lambda>acc b. 10 * acc + (of_char b - 48)) 0 sc"

definition ParseUint :: "string \<Rightarrow> nat option" where
  "ParseUint sc =
     (if sc \<noteq> [] \<and> list_all isDigit sc \<and> decimal sc < 2 ^ 64 then Some (decimal sc) else None)"

definition isValidStatusCode :: "string \<Rightarrow> bool" where
  "isValidStatusCode sc =
     (case ParseUint sc of Some code \<Rightarrow> 100 \<le> code \<and> code < 600 | None \<Rightarrow> False)"

datatype normError =
    EmptyService | ServiceTooLong | ServiceNotNormalized
  | EmptyName | NameTooLong | InvalidName
  | EmptyResource | EmptyTraceID | EmptySpanID
  | InvalidStart | EndTooFarInFuture | NonPositiveDuration
  | TypeTooLong

text \<open>
  \<open>Span.Normalize\<close>. The method changes the span in place and returns an error or
  \<open>nil\<close>; the model returns the span as the method leaves it, with the error. The sum
  \<open>s.Start+s.Duration\<close> is an \<open>int64\<close> sum and wraps around.
\<close>

definition Normalize :: "normEnv \<Rightarrow> span \<Rightarrow> panic + (span \<times> normError option)" where
  "Normalize e s =
    (if Service s = [] then Inr (s, Some EmptyService)
     else if length (Service s) > MaxServiceLen then Inr (s, Some ServiceTooLong)
     else
       let s = s\<lparr>Service := NormalizeTag e (Service s)\<rparr>
       in if Service s = [] then Inr (s, Some ServiceNotNormalized)
          else if Name s = [] then Inr (s, Some EmptyName)
          else if length (Name s) > MaxNameLen then Inr (s, Some NameTooLong)
          else case normMetricNameParse (Name s) of
                 Inl p \<Rightarrow> Inl p
               | Inr (name, ok) \<Rightarrow>
                   let s = s\<lparr>Name := name\<rparr>
                   in if \<not> ok then Inr (s, Some InvalidName)
                      else if Resource s = [] then Inr (s, Some EmptyResource)
                      else if TraceID s = 0 then Inr (s, Some EmptyTraceID)
                      else if SpanID s = 0 then Inr (s, Some EmptySpanID)
                      else
                        let s = (if ParentID s = TraceID s \<and> ParentID s = SpanID s
                                 then s\<lparr>ParentID := 0\<rparr> else s)
                        in if sint (Start s) < Year2000NanosecTS then Inr (s, Some InvalidStart)
                           else if sint (Start s + Duration s) > Now e + MaxEndDateOffset
                           then Inr (s, Some EndTooFarInFuture)
                           else if sint (Duration s) \<le> 0 then Inr (s, Some NonPositiveDuration)
                           else if length (Type s) > MaxTypeLen then Inr (s, Some TypeTooLong)
                           else
                             (case (case metaLookup (Meta s) ''env'' of
                                     Some tag \<Rightarrow> metaSet (Meta s) ''env'' (NormalizeTag e tag)
                                   | None \<Rightarrow> Inr (Meta s)) of
                               Inl p \<Rightarrow> Inl p
                             | Inr m \<Rightarrow>
                                 let s = s\<lparr>Meta := m\<rparr>;
                                     s = (case metaLookup (Meta s) ''http.status_code'' of
                                            Some sc \<Rightarrow>
                                              if \<not> isValidStatusCode sc
                                              then s\<lparr>Meta := metaDelete (Meta s) ''http.status_code''\<rparr>
                                              else s
                                          | None \<Rightarrow> s)
                                 in Inr (s, None)))"

datatype traceError =
    EmptyTrace
  | DuplicateSpanID "64 word"
  | TraceIDMismatch
  | InvalidSpan normError

text \<open>
  The loop of \<open>NormalizeTrace\<close> over the spans from index \<open>i\<close> on, with the trace ID of
  the first span and the span IDs seen so far. A trace is a slice of pointers to spans;
  the model holds the spans themselves. Two entries of a slice that point to one span have
  one span ID, and the loop returns at the second before it reads anything else from it,
  so the sharing changes no result.
\<close>

fun normalizeSpans ::
  "normEnv \<Rightarrow> 64 word \<Rightarrow> 64 word set \<Rightarrow> span list \<Rightarrow> panic + (span list \<times> traceError option)" where
  "normalizeSpans e traceID spanIDs [] = Inr ([], None)"
| "normalizeSpans e traceID spanIDs (span # rest) =
     (if SpanID span \<in> spanIDs then Inr (span # rest, Some (DuplicateSpanID (SpanID span)))
      else if TraceID span \<noteq> traceID then Inr (span # rest, Some TraceIDMismatch)
      else case Normalize e span of
             Inl p \<Rightarrow> Inl p
           | Inr (span', Some err) \<Rightarrow> Inr (span' # rest, Some (InvalidSpan err))
           | Inr (span', None) \<Rightarrow>
               (case normalizeSpans e traceID (insert (SpanID span) spanIDs) rest of
                  Inl p \<Rightarrow> Inl p
                | Inr (rest', err) \<Rightarrow> Inr (span' # rest', err)))"

definition NormalizeTrace :: "normEnv \<Rightarrow> trace \<Rightarrow> panic + (trace \<times> traceError option)" where
  "NormalizeTrace e t =
     (case t of
        [] \<Rightarrow> Inr (t, Some EmptyTrace)
      | first # _ \<Rightarrow> normalizeSpans e (TraceID first) {} t)"

section \<open>The resource filter\<close>

text \<open>
  Package \<open>regexp\<close> is outside the sources: a compiled expression is a value of a type
  \<open>'re\<close>, and the three functions the filter calls are parameters.
\<close>

record 're regexpPkg =
  Compile :: "string \<Rightarrow> 're option"
  MatchString :: "'re \<Rightarrow> string \<Rightarrow> bool"
  ReplaceAllString :: "'re \<Rightarrow> string \<Rightarrow> string \<Rightarrow> string"

text \<open>
  \<open>resourceFilter\<close>. An element of \<open>searchReplace\<close> is a map from expressions to
  replacements; it is held as the list of its entries in the order \<open>range\<close> visits them.
\<close>

record 're resourceFilter =
  blacklist :: "'re list"
  searchReplace :: "('re \<times> string) list list"

fun compileRules :: "'re regexpPkg \<Rightarrow> string list \<Rightarrow> 're list" where
  "compileRules R [] = []"
| "compileRules R (entry # entries) =
     (case Compile R entry of
        None \<Rightarrow> compileRules R entries
      | Some rule \<Rightarrow> rule # compileRules R entries)"

fun compileSearchReplace :: "'re regexpPkg \<Rightarrow> string list list \<Rightarrow> ('re \<times> string) list list" where
  "compileSearchReplace R [] = []"
| "compileSearchReplace R (entry # entries) =
     (if length entry \<noteq> 2 then compileSearchReplace R entries
      else case Compile R (entry ! 0) of
             None \<Rightarrow> compileSearchReplace R entries
           | Some search \<Rightarrow> [(search, entry ! 1)] # compileSearchReplace R entries)"

text \<open>
  \<open>newResourceFilter\<close>, given \<open>conf.Ignore["resource"]\<close> and \<open>conf.Regex["resource"]\<close>.
\<close>

definition newResourceFilter :: "'re regexpPkg \<Rightarrow> string list \<Rightarrow> string list list \<Rightarrow> 're resourceFilter" where
  "newResourceFilter R ignore regex =
     \<lparr>blacklist = compileRules R ignore, searchReplace = compileSearchReplace R regex\<rparr>"

text \<open>The first loop of \<open>Keep\<close>: some expression of the blacklist matches the resource.\<close>

fun blacklisted :: "'re regexpPkg \<Rightarrow> 're list \<Rightarrow> string \<Rightarrow> bool" where
  "blacklisted R [] resource = False"
| "blacklisted R (entry # entries) resource =
     (if MatchString R entry resource then True else blacklisted R entries resource)"

text \<open>The inner loop of \<open>Keep\<close> over the entries of one map, and the outer loop.\<close>

fun replaceEntry :: "'re regexpPkg \<Rightarrow> ('re \<times> string) list \<Rightarrow> span \<Rightarrow> panic + span" where
  "replaceEntry R [] t = Inr t"
| "replaceEntry R ((key, v) # rest) t =
     (if MatchString R key (metaGet (Meta t) ''http.url'')
      then case metaSet (Meta t) ''http.url'' (ReplaceAllString R key (metaGet (Meta t) ''http.url'') v) of
             Inl p \<Rightarrow> Inl p
           | Inr m \<Rightarrow> replaceEntry R rest (t\<lparr>Meta := m\<rparr>)
      else replaceEntry R rest t)"

fun replaceAll :: "'re regexpPkg \<Rightarrow> ('re \<times> string) list list \<Rightarrow> span \<Rightarrow> panic + span" where
  "replaceAll R [] t = Inr t"
| "replaceAll R (entry # entries) t =
     (case replaceEntry R entry t of
        Inl p \<Rightarrow> Inl p
      | Inr t' \<Rightarrow> replaceAll R entries t')"

text \<open>
  \<open>resourceFilter.Keep\<close> (the version in \<open>filters/resource.go\<close>): the result and the
  span as the method leaves it.
\<close>

definition Keep :: "'re regexpPkg \<Rightarrow> 're resourceFilter \<Rightarrow> span \<Rightarrow> panic + (bool \<times> span)" where
  "Keep R f t =
     (if blacklisted R (blacklist f) (Resource t) then Inr (False, t)
      else case replaceAll R (searchReplace f) t of
             Inl p \<Rightarrow> Inl p
           | Inr t' \<Rightarrow> Inr (True, t'))"

text \<open>
  The value the rules of a filter give to a URL: each rule in turn, applied when its
  expression matches the value the rules before it have left.
\<close>

fun rewriteUrl :: "'re regexpPkg \<Rightarrow> ('re \<times> string) list \<Rightarrow> string \<Rightarrow> string" where
  "rewriteUrl R [] url = url"
| "rewriteUrl R ((key, v) # rest) url =
     rewriteUrl R rest (if MatchString R key url then ReplaceAllString R key url v else url)"

section \<open>The quantile summary and its serialization\<close>

text \<open>
  Modelled from the spec: the sources hold no file of package \<open>quantile\<close> but a
  benchmark, so \<open>Summary\<close>, its serialization and \<open>Quantile\<close> are missing. The
  definitions of this section follow sections 3 and 4.1 of the spec. An entry is
  \<open>(v, g, \<Delta>, samples)\<close> and a summary is the ordered sequence of entries with \<open>N\<close>
  and \<open>\<epsilon>\<close>; the widths are those of the serialized record (\<open>v\<close> and \<open>\<epsilon>\<close> an f64,
  \<open>g\<close> and \<open>\<Delta>\<close> a u32, \<open>N\<close> and a sample a u64). An f64 is held as its 64-bit
  pattern, which is what serialization copies.
\<close>

type_synonym float64 = "64 word"

record entry =
  EntryValue :: float64
  EntryGap :: "32 word"
  EntryDelta :: "32 word"
  EntrySamples :: "64 word list"

record summary =
  SummaryEntries :: "entry list"
  SummaryN :: "64 word"
  SummaryEpsilon :: float64

text \<open>
  Modelled from the spec: the floating-point computations the spec uses, as parameters.
  \<open>LessEq v v'\<close> is \<open>v \<le> v'\<close>; \<open>ErrorBudget \<epsilon> N\<close> is \<open>\<lfloor>2\<epsilon>N\<rfloor>\<close>;
  \<open>Reaches q \<epsilon> N c\<close> is \<open>c \<ge> \<lceil>q\<cdot>N\<rceil> + \<epsilon>N\<close>; \<open>IsZero q\<close> and \<open>IsOne q\<close> are
  \<open>q = 0\<close> and \<open>q = 1\<close>.
\<close>

record float64Ops =
  LessEq :: "float64 \<Rightarrow> float64 \<Rightarrow> bool"
  ErrorBudget :: "float64 \<Rightarrow> 64 word \<Rightarrow> nat"
  Reaches :: "float64 \<Rightarrow> float64 \<Rightarrow> 64 word \<Rightarrow> nat \<Rightarrow> bool"
  IsZero :: "float64 \<Rightarrow> bool"
  IsOne :: "float64 \<Rightarrow> bool"

text \<open>
  Modelled from the spec: the invariants of section 3. Every \<open>g\<close> is at least 1 (a
  \<open>\<Delta>\<close> is unsigned, so \<open>\<Delta> \<ge> 0\<close> holds as it is), and for adjacent entries
  \<open>v\<^sub>i \<le> v\<^sub>i\<^sub>+\<^sub>1\<close> and \<open>g\<^sub>i\<^sub>+\<^sub>1 + \<Delta>\<^sub>i\<^sub>+\<^sub>1 \<le> \<lfloor>2\<epsilon>N\<rfloor> + 1\<close>.
\<close>

fun adjacentOK :: "float64Ops \<Rightarrow> float64 \<Rightarrow> 64 word \<Rightarrow> entry list \<Rightarrow> bool" where
  "adjacentOK F eps n (e1 # e2 # es) =
     (LessEq F (EntryValue e1) (EntryValue e2)
      \<and> unat (EntryGap e2) + unat (EntryDelta e2) \<le> ErrorBudget F eps n + 1
      \<and> adjacentOK F eps n (e2 # es))"
| "adjacentOK F eps n es = True"

definition invariants :: "float64Ops \<Rightarrow> summary \<Rightarrow> bool" where
  "invariants F s \<longleftrightarrow>
     list_all (\<lambda>e. 1 \<le> EntryGap e) (SummaryEntries s)
     \<and> adjacentOK F (SummaryEpsilon s) (SummaryN s) (SummaryEntries s)"

text \<open>
  Modelled from the spec: the quantile lookup of section 4.1. The scan keeps
  \<open>cumG\<close>, the sum of the \<open>g\<close> up to the entry at hand, and returns the value and the
  samples of the first entry with \<open>cumG + \<Delta> \<ge> \<lceil>q\<cdot>N\<rceil> + \<epsilon>N\<close>; \<open>q = 0\<close> returns the
  first entry, \<open>q = 1\<close> the last, and \<open>N = 0\<close> is an error, here \<open>None\<close>. The spec
  does not say what a scan returns that reaches no entry; the model returns \<open>None\<close>.
\<close>

fun scan :: "float64Ops \<Rightarrow> float64 \<Rightarrow> float64 \<Rightarrow> 64 word \<Rightarrow> nat \<Rightarrow> entry list
    \<Rightarrow> (float64 \<times> 64 word list) option" where
  "scan F q eps n cumG [] = None"
| "scan F q eps n cumG (e # es) =
     (let c = cumG + unat (EntryGap e)
      in if Reaches F q eps n (c + unat (EntryDelta e)) then Some (EntryValue e, EntrySamples e)
         else scan F q eps n c es)"

definition Quantile :: "float64Ops \<Rightarrow> summary \<Rightarrow> float64 \<Rightarrow> (float64 \<times> 64 word list) option" where
  "Quantile F s q =
     (if SummaryN s = 0 \<or> SummaryEntries s = [] then None
      else if IsZero F q
      then Some (EntryValue (hd (SummaryEntries s)), EntrySamples (hd (SummaryEntries s)))
      else if IsOne F q
      then Some (EntryValue (last (SummaryEntries s)), EntrySamples (last (SummaryEntries s)))
      else scan F q (SummaryEpsilon s) (SummaryN s) 0 (SummaryEntries s))"

text \<open>
  Modelled from the spec: a field of \<open>k\<close> bytes. The spec gives the fields and their
  widths and leaves the byte order open; the model writes the most significant byte
  first. A number that does not fit is cut to its low \<open>k\<close> bytes.
\<close>

fun putField :: "nat \<Rightarrow> nat \<Rightarrow> bytes" where
  "putField 0 v = []"
| "putField (Suc k) v = putField k (v div 256) @ [of_nat (v mod 256)]"

text \<open>Modelled from the spec: the number a field holds, and reading a field of \<open>k\<close> bytes.\<close>

definition getField :: "bytes \<Rightarrow> nat" where
  "getField bs = foldl (\<lambda>acc b. acc * 256 + unat b) 0 bs"

definition readField :: "nat \<Rightarrow> bytes \<Rightarrow> (nat \<times> bytes) option" where
  "readField k bs = (if length bs < k then None else Some (getField (take k bs), drop k bs))"

text \<open>
  Modelled from the spec: the version the reader understands. The spec names no number;
  the model uses 1.
\<close>

definition summaryVersion :: "8 word" where
  "summaryVersion = 1"

text \<open>
  Modelled from the spec: the serialized form, a header
  \<open>(version: u8, \<epsilon>: f64, N: u64, entryCount: u32)\<close> followed by one record
  \<open>(v: f64, g: u32, \<Delta>: u32, sampleCount: u32, samples: [u64; sampleCount])\<close> per entry.
\<close>

definition serializeEntry :: "entry \<Rightarrow> bytes" where
  "serializeEntry e =
     putField 8 (unat (EntryValue e)) @ putField 4 (unat (EntryGap e))
     @ putField 4 (unat (EntryDelta e)) @ putField 4 (length (EntrySamples e))
     @ concat (map (\<lambda>x. putField 8 (unat x)) (EntrySamples e))"

text \<open>Modelled from the spec: the header, then the records of the entries in order.\<close>

definition Serialize :: "summary \<Rightarrow> bytes" where
  "Serialize s =
     [summaryVersion] @ putField 8 (unat (SummaryEpsilon s)) @ putField 8 (unat (SummaryN s))
     @ putField 4 (length (SummaryEntries s))
     @ concat (map serializeEntry (SummaryEntries s))"

text \<open>
  Modelled from the spec: reading \<open>sampleCount\<close> samples, one record, and
  \<open>entryCount\<close> records. Each returns what it read with the bytes left, or \<open>None\<close>
  when the input ends early.
\<close>

fun readSamples :: "nat \<Rightarrow> bytes \<Rightarrow> (64 word list \<times> bytes) option" where
  "readSamples 0 bs = Some ([], bs)"
| "readSamples (Suc n) bs =
     (case readField 8 bs of
        None \<Rightarrow> None
      | Some (x, bs1) \<Rightarrow>
          (case readSamples n bs1 of
             None \<Rightarrow> None
           | Some (xs, bs2) \<Rightarrow> Some (of_nat x # xs, bs2)))"

definition readEntry :: "bytes \<Rightarrow> (entry \<times> bytes) option" where
  "readEntry bs =
     (case readField 8 bs of
        None \<Rightarrow> None
      | Some (v, bs1) \<Rightarrow>
          (case readField 4 bs1 of
             None \<Rightarrow> None
           | Some (g, bs2) \<Rightarrow>
               (case readField 4 bs2 of
                  None \<Rightarrow> None
                | Some (d, bs3) \<Rightarrow>
                    (case readField 4 bs3 of
                       None \<Rightarrow> None
                     | Some (sampleCount, bs4) \<Rightarrow>
                         (case readSamples sampleCount bs4 of
                            None \<Rightarrow> None
                          | Some (xs, bs5) \<Rightarrow>
                              Some (\<lparr>EntryValue = of_nat v, EntryGap = of_nat g,
                                     EntryDelta = of_nat d, EntrySamples = xs\<rparr>, bs5))))))"

fun readEntries :: "nat \<Rightarrow> bytes \<Rightarrow> (entry list \<times> bytes) option" where
  "readEntries 0 bs = Some ([], bs)"
| "readEntries (Suc n) bs =
     (case readEntry bs of
        None \<Rightarrow> None
      | Some (e, bs1) \<Rightarrow>
          (case readEntries n bs1 of
             None \<Rightarrow> None
           | Some (es, bs2) \<Rightarrow> Some (e # es, bs2)))"

text \<open>
  Modelled from the spec: the reader. It rejects a version other than its own and input
  that ends early, and it refuses a summary that violates the invariants; the result is
  a new summary or \<open>None\<close>, so a failed read changes nothing.
\<close>

definition Deserialize :: "float64Ops \<Rightarrow> bytes \<Rightarrow> summary option" where
  "Deserialize F bs =
     (case bs of
        [] \<Rightarrow> None
      | version # bs0 \<Rightarrow>
          if version \<noteq> summaryVersion then None
          else
            (case readField 8 bs0 of
               None \<Rightarrow> None
             | Some (eps, bs1) \<Rightarrow>
                 (case readField 8 bs1 of
                    None \<Rightarrow> None
                  | Some (n, bs2) \<Rightarrow>
                      (case readField 4 bs2 of
                         None \<Rightarrow> None
                       | Some (entryCount, bs3) \<Rightarrow>
                           (case readEntries entryCount bs3 of
                              None \<Rightarrow> None
                            | Some (es, bs4) \<Rightarrow>
                                (let s = \<lparr>SummaryEntries = es, SummaryN = of_nat n,
                                          SummaryEpsilon = of_nat eps\<rparr>
                                 in if invariants F s then Some s else None))))))"

section \<open>Concrete inputs\<close>

text \<open>The values at which the theorems below are evaluated.\<close>

definition exampleSpan :: "64 word \<Rightarrow> span" where
  "exampleSpan n =
     \<lparr>TraceID = 7, SpanID = n, ParentID = 0, Service = ''web'', Name = ''http.request'',
      Resource = ''GET /'', Start = 1500000000000000000, Duration = 1000, Type = ''http'',
      Meta = Some Map.empty, Metrics = None\<rparr>"

definition tenSpans :: trace where
  "tenSpans = map exampleSpan [1, 2, 3, 4, 5, 6, 7, 8, 9, 10]"

text \<open>
  A \<open>proto.Marshal\<close> that always succeeds, writing one byte per trace with the number of
  its spans, and one that always fails.
\<close>

definition marshalOK :: extern where
  "marshalOK =
     \<lparr>Marshal = (\<lambda>p. Inr (map (\<lambda>t. of_nat (length t)) (Traces_payload p))),
      Languages = [''go'', ''python'']\<rparr>"

definition marshalFails :: extern where
  "marshalFails = \<lparr>Marshal = (\<lambda>p. Inl ''proto: marshal error''), Languages = [''go'']\<rparr>"

text \<open>A writer with an empty buffer and the given cap.\<close>

definition emptyWriter :: "int \<Rightarrow> traceWriter" where
  "emptyWriter cap =
     \<lparr>hostName = ''host'', env = ''prod'',
      conf = \<lparr>MaxSpansPerPayload = cap, FlushPeriod = 5000000000, UpdateInfoPeriod = 60000000000\<rparr>,
      stats = \<lparr>Payloads = 0, Traces = 0, Spans = 0, Bytes = 0, Retries = 0, Errors = 0\<rparr>,
      traces = [], spansInBuffer = 0, payloadSender = [], statsClient = [],
      infoTraceWriter = \<lparr>Payloads = 0, Traces = 0, Spans = 0, Bytes = 0, Retries = 0, Errors = 0\<rparr>\<rparr>"

text \<open>A writer with one span buffered under a cap of two.\<close>

definition oneSpanWriter :: traceWriter where
  "oneSpanWriter = (emptyWriter 2)\<lparr>traces := [[exampleSpan 1]], spansInBuffer := 1\<rparr>"

text \<open>One success, two retries and one failure, as the sender reports them.\<close>

definition examplePayload :: payload where
  "examplePayload = NewPayload [1, 2, 3] Map.empty"

definition exampleEvents :: "senderEvent list" where
  "exampleEvents =
     [SenderSuccessEvent \<lparr>SendTime = 250000000\<rparr> examplePayload,
      SenderRetryEvent 1 1000000000 ''timeout'',
      SenderRetryEvent 2 2000000000 ''timeout'',
      SenderFailureEvent \<lparr>SendTime = 300000000\<rparr> examplePayload ''giving up'']"

text \<open>The clock at 2023-11-14 22:13:20 UTC and a \<open>NormalizeTag\<close> that keeps its argument.\<close>

definition exampleEnv :: normEnv where
  "exampleEnv = \<lparr>NormalizeTag = (\<lambda>tag. tag), Now = 1700000000000000000\<rparr>"

text \<open>
  Regular expressions of the form \<open>^lit$\<close> with \<open>lit\<close> free of metacharacters: such an
  expression matches exactly the string \<open>lit\<close>, and replacing its matches in that string
  by a replacement without \<open>$\<close> yields the replacement. The compiled form is \<open>lit\<close>.
\<close>

definition anchored :: "string regexpPkg" where
  "anchored =
     \<lparr>Compile = (\<lambda>p. case p of
                        [] \<Rightarrow> None
                      | c # rest \<Rightarrow> if c = CHR ''^'' \<and> rest \<noteq> [] \<and> last rest = CHR ''$''
                                   then Some (butlast rest) else None),
      MatchString = (\<lambda>lit s. s = lit),
      ReplaceAllString = (\<lambda>lit s v. if s = lit then v else s)\<rparr>"

text \<open>
  A span that starts at the last nanosecond an \<open>int64\<close> can hold and lasts one
  nanosecond, and a span whose parent, trace and span IDs are all 7.
\<close>

definition lateSpan :: span where
  "lateSpan = (exampleSpan 1)\<lparr>Start := 9223372036854775807, Duration := 1\<rparr>"



text \<open>
  A filter with no blacklist and the single rule that replaces an empty URL by \<open>none\<close>,
  and a span whose \<open>Meta\<close> map is \<open>nil\<close>.
\<close>

definition emptyUrlFilter :: "string resourceFilter" where
  "emptyUrlFilter = newResourceFilter anchored [] [[''^$'', ''none'']]"

definition nilMetaSpan :: span where
  "nilMetaSpan = (exampleSpan 1)\<lparr>Meta := None\<rparr>"

text \<open>
  Floating-point operations for non-negative values, whose order is the order of their
  bit patterns, with a constant error budget; and a summary of two entries over three
  observations.
\<close>

definition exampleOps :: float64Ops where
  "exampleOps =
     \<lparr>LessEq = (\<lambda>v v'. v \<le> v'), ErrorBudget = (\<lambda>eps n. 1),
      Reaches = (\<lambda>q eps n c. 2 \<le> c), IsZero = (\<lambda>q. q = 0),
      IsOne = (\<lambda>q. q = 0x3FF0000000000000)\<rparr>"

definition exampleSummary :: summary where
  "exampleSummary =
     \<lparr>SummaryEntries =
        [\<lparr>EntryValue = 0x3FF0000000000000, EntryGap = 1, EntryDelta = 0, EntrySamples = [11]\<rparr>,
         \<lparr>EntryValue = 0x4000000000000000, EntryGap = 2, EntryDelta = 0, EntrySamples = [12, 13]\<rparr>],
      SummaryN = 3, SummaryEpsilon = 0x3F847AE147AE147B\<rparr>"

section \<open>Properties of \<open>flush\<close>\<close>

lemma conf_flush: "conf (flush x w) = conf w"
  by (simp add: flush_def Let_def split: sum.splits)

lemma hostName_flush: "hostName (flush x w) = hostName w"
  by (simp add: flush_def Let_def split: sum.splits)

lemma env_flush: "env (flush x w) = env w"
  by (simp add: flush_def Let_def split: sum.splits)

lemma flush_empty: "traces w = [] \<Longrightarrow> flush x w = w"
  by (simp add: flush_def)

lemma flush_failure:
  assumes "traces w \<noteq> []"
    and "Marshal x \<lparr>HostName = hostName w, Env = env w, Traces_payload = traces w\<rparr> = Inl err"
  shows "traces (flush x w) = traces w"
    and "spansInBuffer (flush x w) = spansInBuffer w"
    and "payloadSender (flush x w) = payloadSender w"
  using assms by (simp_all add: flush_def Let_def)

lemma flush_success:
  assumes "traces w \<noteq> []"
    and "Marshal x \<lparr>HostName = hostName w, Env = env w, Traces_payload = traces w\<rparr> = Inr b"
  shows "traces (flush x w) = []"
    and "spansInBuffer (flush x w) = 0"
    and "payloadSender (flush x w) = payloadSender w @ [NewPayload b (flushHeaders x)]"
  using assms by (simp_all add: flush_def Let_def)

text \<open>
  Either \<open>flush\<close> leaves buffer and sender as they are, or it hands one payload carrying
  the whole buffer to the sender and empties the buffer.
\<close>

lemma flush_cases:
  obtains (kept) "traces (flush x w) = traces w" "spansInBuffer (flush x w) = spansInBuffer w"
      "payloadSender (flush x w) = payloadSender w"
  | (sent) p where "traces w \<noteq> []" "carries x w p (traces w)"
      "payloadSender (flush x w) = payloadSender w @ [p]"
      "traces (flush x w) = []" "spansInBuffer (flush x w) = 0"
proof (cases "traces w = []")
  case True
  then show ?thesis using kept by (simp add: flush_empty)
next
  case False
  show ?thesis
  proof (cases "Marshal x \<lparr>HostName = hostName w, Env = env w, Traces_payload = traces w\<rparr>")
    case (Inl err)
    then show ?thesis using kept False flush_failure [of w x err] by simp
  next
    case (Inr b)
    have "carries x w (NewPayload b (flushHeaders x)) (traces w)"
      using Inr by (simp add: carries_def NewPayload_def)
    then show ?thesis using sent False flush_success [OF False Inr] by simp
  qed
qed

section \<open>Unfolding and induction for \<open>handleTrace\<close>\<close>

lemma conf_bufferTrace: "conf (bufferTrace w t) = conf w"
  by (simp add: bufferTrace_def)

lemma hostName_bufferTrace: "hostName (bufferTrace w t) = hostName w"
  by (simp add: bufferTrace_def)

lemma env_bufferTrace: "env (bufferTrace w t) = env w"
  by (simp add: bufferTrace_def)

lemma traces_bufferTrace: "traces (bufferTrace w t) = traces w @ [t]"
  by (simp add: bufferTrace_def APITrace_def)

lemma spansInBuffer_bufferTrace: "spansInBuffer (bufferTrace w t) = spansInBuffer w + int (length t)"
  by (simp add: bufferTrace_def)

lemma payloadSender_bufferTrace: "payloadSender (bufferTrace w t) = payloadSender w"
  by (simp add: bufferTrace_def)

text \<open>
  One call of \<open>handleTrace\<close>, by the case it takes: an empty trace is ignored; a trace
  that fits is buffered, and the buffer flushed when it is full; a trace that does not fit
  is cut at \<open>MaxSpansPerPayload - spansInBuffer\<close>, a negative index being a panic. The
  explicit \<open>panic\<close> has no case: the overflow test comes first.
\<close>

lemma handleTrace_unfold:
  "handleTrace x w t =
    (if t = [] then Some (Inr w)
     else if spansInBuffer w + int (length t) < MaxSpansPerPayload (conf w)
     then Some (Inr (bufferTrace w t))
     else if spansInBuffer w + int (length t) = MaxSpansPerPayload (conf w)
     then Some (Inr (flush x (bufferTrace w t)))
     else if MaxSpansPerPayload (conf w) < spansInBuffer w then Some (Inl SliceBoundsOutOfRange)
     else handleTrace x
            (flush x (bufferTrace w (take (nat (MaxSpansPerPayload (conf w) - spansInBuffer w)) t)))
            (drop (nat (MaxSpansPerPayload (conf w) - spansInBuffer w)) t))"
  apply (subst handleTrace.simps)
  apply (simp add: Let_def bufferTrace_def)
  apply (auto simp: min_def)
  done

lemma handleTrace_induct [consumes 1, case_names empty fits fills bounds split]:
  assumes r: "handleTrace x w t = Some r"
    and empty: "\<And>w. P w [] (Inr w)"
    and fits: "\<And>w t. t \<noteq> [] \<Longrightarrow>
                 spansInBuffer w + int (length t) < MaxSpansPerPayload (conf w) \<Longrightarrow>
                 P w t (Inr (bufferTrace w t))"
    and fills: "\<And>w t. t \<noteq> [] \<Longrightarrow>
                 spansInBuffer w + int (length t) = MaxSpansPerPayload (conf w) \<Longrightarrow>
                 P w t (Inr (flush x (bufferTrace w t)))"
    and bounds: "\<And>w t. t \<noteq> [] \<Longrightarrow> MaxSpansPerPayload (conf w) < spansInBuffer w \<Longrightarrow>
                 P w t (Inl SliceBoundsOutOfRange)"
    and split: "\<And>w t r. t \<noteq> [] \<Longrightarrow>
                 MaxSpansPerPayload (conf w) < spansInBuffer w + int (length t) \<Longrightarrow>
                 spansInBuffer w \<le> MaxSpansPerPayload (conf w) \<Longrightarrow>
                 P (flush x (bufferTrace w (take (nat (MaxSpansPerPayload (conf w) - spansInBuffer w)) t)))
                   (drop (nat (MaxSpansPerPayload (conf w) - spansInBuffer w)) t) r \<Longrightarrow>
                 P w t r"
  shows "P w t r"
proof -
  have "x' = x \<longrightarrow> P w t r" if "handleTrace x' w t = Some r" for x'
    using that
    apply (rule handleTrace.raw_induct
        [where xa = "((x', w), t)" and y = r and P = "\<lambda>x' w t r. x' = x \<longrightarrow> P w t r",
          simplified, rotated])
    apply (rule impI)
    apply (simp add: Let_def APITrace_def split: if_splits)
    subgoal using empty by blast
    subgoal using bounds by blast
    subgoal for f xa w t r using split [of t w r] by (simp add: bufferTrace_def APITrace_def min_def)
    subgoal for f xa w t using fills [of t w] by (simp add: bufferTrace_def APITrace_def)
    subgoal for f xa w t using fits [of t w] by (simp add: bufferTrace_def APITrace_def)
    done
  then show ?thesis using r by blast
qed

text \<open>The cap invariant, for any result the call returns.\<close>

lemma handleTrace_within_cap:
  assumes "handleTrace x w t = Some r"
  shows "0 \<le> spansInBuffer w \<and> spansInBuffer w \<le> MaxSpansPerPayload (conf w) \<longrightarrow>
         (\<exists>w'. r = Inr w' \<and> conf w' = conf w \<and> 0 \<le> spansInBuffer w'
               \<and> spansInBuffer w' \<le> MaxSpansPerPayload (conf w'))"
  using assms
proof (induction rule: handleTrace_induct)
  case (empty w)
  then show ?case by simp
next
  case (fits w t)
  then show ?case by (simp add: conf_bufferTrace spansInBuffer_bufferTrace)
next
  case (fills w t)
  show ?case
    by (cases x "bufferTrace w t" rule: flush_cases)
      (use fills in \<open>simp_all add: conf_flush conf_bufferTrace spansInBuffer_bufferTrace\<close>)
next
  case (bounds w t)
  then show ?case by simp
next
  case (split w t r)
  let ?k = "nat (MaxSpansPerPayload (conf w) - spansInBuffer w)"
  have full: "spansInBuffer (bufferTrace w (take ?k t)) = MaxSpansPerPayload (conf w)"
    using split(2,3) by (simp add: spansInBuffer_bufferTrace min_def)
  show ?case
  proof
    assume a: "0 \<le> spansInBuffer w \<and> spansInBuffer w \<le> MaxSpansPerPayload (conf w)"
    have "0 \<le> spansInBuffer (flush x (bufferTrace w (take ?k t)))
          \<and> spansInBuffer (flush x (bufferTrace w (take ?k t))) \<le> MaxSpansPerPayload (conf w)"
      by (cases x "bufferTrace w (take ?k t)" rule: flush_cases) (use a full in simp_all)
    then show "\<exists>w'. r = Inr w' \<and> conf w' = conf w \<and> 0 \<le> spansInBuffer w'
               \<and> spansInBuffer w' \<le> MaxSpansPerPayload (conf w')"
      using split(4) by (simp add: conf_flush conf_bufferTrace)
  qed
qed

text \<open>The call returns when the cap is positive and serialization never fails.\<close>

lemma handleTrace_returns:
  assumes cap: "0 < MaxSpansPerPayload (conf w)"
    and ok: "\<forall>p. \<exists>b. Marshal x p = Inr b"
    and le: "spansInBuffer w \<le> MaxSpansPerPayload (conf w)"
  shows "\<exists>r. handleTrace x w t = Some r"
  using cap le
proof (induction "2 * length t + (if spansInBuffer w = MaxSpansPerPayload (conf w) then 1 else 0)"
    arbitrary: w t rule: less_induct)
  case less
  let ?M = "MaxSpansPerPayload (conf w)"
  let ?k = "nat (?M - spansInBuffer w)"
  let ?w1 = "bufferTrace w (take ?k t)"
  show ?case
  proof (cases "t \<noteq> [] \<and> ?M < spansInBuffer w + int (length t)")
    case False
    then show ?thesis using less.prems by (subst handleTrace_unfold) auto
  next
    case True
    obtain b where b: "Marshal x \<lparr>HostName = hostName ?w1, Env = env ?w1, Traces_payload = traces ?w1\<rparr> = Inr b"
      using ok by blast
    have ne: "traces ?w1 \<noteq> []" by (simp add: traces_bufferTrace)
    have z: "spansInBuffer (flush x ?w1) = 0" using flush_success(2) [OF ne b] .
    have c: "conf (flush x ?w1) = conf w" by (simp add: conf_flush conf_bufferTrace)
    have "2 * length (drop ?k t) + (if spansInBuffer (flush x ?w1) = MaxSpansPerPayload (conf (flush x ?w1)) then 1 else 0)
          < 2 * length t + (if spansInBuffer w = ?M then 1 else 0)"
      using True less.prems by (auto simp: z c)
    from less.hyps [OF this] less.prems
    have "\<exists>r. handleTrace x (flush x ?w1) (drop ?k t) = Some r" by (simp add: z c)
    then show ?thesis using True less.prems by (subst handleTrace_unfold) auto
  qed
qed

section \<open>Payloads and buffer account for every span\<close>

lemma carries_cong:
  "hostName w1 = hostName w \<Longrightarrow> env w1 = env w \<Longrightarrow> carries x w1 p b = carries x w p b"
  by (simp add: carries_def)

lemma emitted_refl: "payloadSender w' = payloadSender w \<Longrightarrow> emitted x w w' []"
  by (simp add: emitted_def)

lemma emitted_trans:
  assumes "emitted x w w1 bs" and "emitted x w1 w2 bs'"
    and "hostName w1 = hostName w" and "env w1 = env w"
  shows "emitted x w w2 (bs @ bs')"
proof -
  obtain ps where ps: "payloadSender w1 = payloadSender w @ ps" "list_all2 (carries x w) ps bs"
    using assms(1) by (auto simp: emitted_def)
  obtain ps' where ps': "payloadSender w2 = payloadSender w1 @ ps'" "list_all2 (carries x w1) ps' bs'"
    using assms(2) by (auto simp: emitted_def)
  have "carries x w1 = carries x w"
    using carries_cong [OF assms(3,4)] by (intro ext) simp
  then have "list_all2 (carries x w) (ps @ ps') (bs @ bs')"
    using ps(2) ps'(2) by (simp add: list_all2_appendI)
  then show ?thesis using ps(1) ps'(1) by (auto simp: emitted_def)
qed

text \<open>
  A call of \<open>flush\<close> emits no payload and keeps the buffer, or emits one payload for the
  whole buffer and empties it.
\<close>

lemma flush_emitted:
  "\<exists>bs. emitted x w (flush x w) bs
      \<and> concat (concat bs) @ concat (traces (flush x w)) = concat (traces w)
      \<and> set bs \<subseteq> {traces w}
      \<and> (spansInBuffer w = int (length (concat (traces w))) \<longrightarrow>
         spansInBuffer (flush x w) = int (length (concat (traces (flush x w)))))"
proof (cases x w rule: flush_cases)
  case kept
  then have "emitted x w (flush x w) []" by (simp add: emitted_refl)
  then show ?thesis using kept by (intro exI [of _ "[]"]) simp
next
  case (sent p)
  have "emitted x w (flush x w) [traces w]"
    using sent by (auto simp: emitted_def)
  then show ?thesis using sent by (intro exI [of _ "[traces w]"]) simp
qed

lemma handleTrace_accounts:
  assumes "handleTrace x w t = Some r"
  shows "\<forall>w'. r = Inr w' \<longrightarrow>
           conf w' = conf w \<and> hostName w' = hostName w \<and> env w' = env w \<and>
           (\<exists>bs. emitted x w w' bs \<and>
                 concat (concat bs) @ concat (traces w') = concat (traces w) @ t \<and>
                 (spansInBuffer w = int (length (concat (traces w))) \<longrightarrow>
                    spansInBuffer w' = int (length (concat (traces w'))) \<and>
                    (\<forall>b \<in> set bs. int (length (concat b)) = MaxSpansPerPayload (conf w))))"
  using assms
proof (induction rule: handleTrace_induct)
  case (empty w)
  then show ?case using emitted_refl [of w w x] by auto
next
  case (fits w t)
  have "emitted x w (bufferTrace w t) []"
    by (simp add: emitted_refl payloadSender_bufferTrace)
  then show ?case
    by (auto simp: conf_bufferTrace hostName_bufferTrace env_bufferTrace traces_bufferTrace
        spansInBuffer_bufferTrace)
next
  case (fills w t)
  let ?w1 = "bufferTrace w t"
  obtain bs where bs: "emitted x ?w1 (flush x ?w1) bs"
    "concat (concat bs) @ concat (traces (flush x ?w1)) = concat (traces ?w1)"
    "set bs \<subseteq> {traces ?w1}"
    "spansInBuffer ?w1 = int (length (concat (traces ?w1))) \<Longrightarrow>
         spansInBuffer (flush x ?w1) = int (length (concat (traces (flush x ?w1))))"
    using flush_emitted [of x ?w1] by blast
  have e: "emitted x w (flush x ?w1) bs"
    using emitted_trans [OF emitted_refl bs(1), of w] 
    by (simp add: payloadSender_bufferTrace hostName_bufferTrace env_bufferTrace)
  have c: "concat (concat bs) @ concat (traces (flush x ?w1)) = concat (traces w) @ t"
    using bs(2) by (simp add: traces_bufferTrace)
  have sz: "spansInBuffer (flush x ?w1) = int (length (concat (traces (flush x ?w1)))) \<and>
            (\<forall>b \<in> set bs. int (length (concat b)) = MaxSpansPerPayload (conf w))"
    if cons: "spansInBuffer w = int (length (concat (traces w)))"
  proof -
    have c1: "spansInBuffer ?w1 = int (length (concat (traces ?w1)))"
      using cons by (simp add: spansInBuffer_bufferTrace traces_bufferTrace)
    have "int (length (concat (traces ?w1))) = MaxSpansPerPayload (conf w)"
      using c1 fills(2) by (simp add: spansInBuffer_bufferTrace)
    then have "\<forall>b \<in> set bs. int (length (concat b)) = MaxSpansPerPayload (conf w)"
      using bs(3) by auto
    then show ?thesis using bs(4) [OF c1] by simp
  qed
  have same: "conf (flush x ?w1) = conf w" "hostName (flush x ?w1) = hostName w"
    "env (flush x ?w1) = env w"
    by (simp_all add: conf_flush hostName_flush env_flush conf_bufferTrace hostName_bufferTrace
        env_bufferTrace)
  show ?case using e c sz same by blast
next
  case (bounds w t)
  then show ?case by simp
next
  case (split w t r)
  let ?k = "nat (MaxSpansPerPayload (conf w) - spansInBuffer w)"
  let ?w1 = "bufferTrace w (take ?k t)"
  let ?w2 = "flush x ?w1"
  obtain bs where bs: "emitted x ?w1 ?w2 bs"
    "concat (concat bs) @ concat (traces ?w2) = concat (traces ?w1)"
    "set bs \<subseteq> {traces ?w1}"
    "spansInBuffer ?w1 = int (length (concat (traces ?w1))) \<Longrightarrow>
         spansInBuffer ?w2 = int (length (concat (traces ?w2)))"
    using flush_emitted [of x ?w1] by blast
  have e: "emitted x w ?w2 bs"
    using emitted_trans [OF emitted_refl bs(1), of w]
    by (simp add: payloadSender_bufferTrace hostName_bufferTrace env_bufferTrace)
  have same: "conf ?w2 = conf w" "hostName ?w2 = hostName w" "env ?w2 = env w"
    by (simp_all add: conf_flush hostName_flush env_flush conf_bufferTrace hostName_bufferTrace
        env_bufferTrace)
  have full: "spansInBuffer ?w1 = MaxSpansPerPayload (conf w)"
    using split(2,3) by (simp add: spansInBuffer_bufferTrace min_def)
  show ?case
  proof (intro allI impI)
    fix w' assume r: "r = Inr w'"
    with split(4) obtain bs' where w': "conf w' = conf ?w2" "hostName w' = hostName ?w2" "env w' = env ?w2"
      and bs': "emitted x ?w2 w' bs'"
        "concat (concat bs') @ concat (traces w') = concat (traces ?w2) @ drop ?k t"
        "spansInBuffer ?w2 = int (length (concat (traces ?w2))) \<longrightarrow>
           spansInBuffer w' = int (length (concat (traces w'))) \<and>
           (\<forall>b \<in> set bs'. int (length (concat b)) = MaxSpansPerPayload (conf ?w2))"
      by blast
    have e': "emitted x w w' (bs @ bs')"
      using emitted_trans [OF e bs'(1)] same by simp
    have "concat (concat (bs @ bs')) @ concat (traces w')
          = concat (concat bs) @ concat (traces ?w2) @ drop ?k t"
      using bs'(2) by simp
    also have "\<dots> = concat (traces ?w1) @ drop ?k t"
      using bs(2) by (metis append.assoc)
    also have "\<dots> = concat (traces w) @ t"
      by (simp add: traces_bufferTrace)
    finally have c: "concat (concat (bs @ bs')) @ concat (traces w') = concat (traces w) @ t" .
    have sz: "spansInBuffer w = int (length (concat (traces w))) \<longrightarrow>
              spansInBuffer w' = int (length (concat (traces w'))) \<and>
              (\<forall>b \<in> set (bs @ bs'). int (length (concat b)) = MaxSpansPerPayload (conf w))"
    proof (rule impI)
      assume cons: "spansInBuffer w = int (length (concat (traces w)))"
      have c1: "spansInBuffer ?w1 = int (length (concat (traces ?w1)))"
        using cons by (simp add: spansInBuffer_bufferTrace traces_bufferTrace)
      have b1: "\<forall>b \<in> set bs. int (length (concat b)) = MaxSpansPerPayload (conf w)"
      proof
        fix b assume "b \<in> set bs"
        then have "b = traces ?w1" using bs(3) by blast
        then show "int (length (concat b)) = MaxSpansPerPayload (conf w)"
          using c1 full by simp
      qed
      have "spansInBuffer ?w2 = int (length (concat (traces ?w2)))"
        by (rule bs(4) [OF c1])
      with bs'(3) have b2: "spansInBuffer w' = int (length (concat (traces w')))"
        "\<forall>b \<in> set bs'. int (length (concat b)) = MaxSpansPerPayload (conf ?w2)"
        by blast+
      have "\<forall>b \<in> set bs'. int (length (concat b)) = MaxSpansPerPayload (conf w)"
        using b2(2) by (simp only: same(1))
      with b1 have "\<forall>b \<in> set (bs @ bs'). int (length (concat b)) = MaxSpansPerPayload (conf w)"
        by (simp add: ball_Un)
      with b2(1) show "spansInBuffer w' = int (length (concat (traces w'))) \<and>
              (\<forall>b \<in> set (bs @ bs'). int (length (concat b)) = MaxSpansPerPayload (conf w))"
        by (rule conjI)
    qed
    have same': "conf w' = conf w" "hostName w' = hostName w" "env w' = env w"
      using w'(1) same(1) w'(2) same(2) w'(3) same(3) by (simp_all only:)
    have "emitted x w w' (bs @ bs') \<and>
          concat (concat (bs @ bs')) @ concat (traces w') = concat (traces w) @ t \<and>
          (spansInBuffer w = int (length (concat (traces w))) \<longrightarrow>
             spansInBuffer w' = int (length (concat (traces w'))) \<and>
             (\<forall>b \<in> set (bs @ bs'). int (length (concat b)) = MaxSpansPerPayload (conf w)))"
      using e' c sz by (intro conjI)
    then have "\<exists>bs. emitted x w w' bs \<and>
          concat (concat bs) @ concat (traces w') = concat (traces w) @ t \<and>
          (spansInBuffer w = int (length (concat (traces w))) \<longrightarrow>
             spansInBuffer w' = int (length (concat (traces w'))) \<and>
             (\<forall>b \<in> set bs. int (length (concat b)) = MaxSpansPerPayload (conf w)))"
      by (rule exI)
    with same' show "conf w' = conf w \<and> hostName w' = hostName w \<and> env w' = env w \<and>
           (\<exists>bs. emitted x w w' bs \<and>
                 concat (concat bs) @ concat (traces w') = concat (traces w) @ t \<and>
                 (spansInBuffer w = int (length (concat (traces w))) \<longrightarrow>
                    spansInBuffer w' = int (length (concat (traces w'))) \<and>
                    (\<forall>b \<in> set bs. int (length (concat b)) = MaxSpansPerPayload (conf w))))"
      by (intro conjI)
  qed
qed

text \<open>The explicit \<open>panic\<close> of \<open>handleTrace\<close> is never reached, from any state.\<close>

lemma handleTrace_never_over_limit:
  assumes "handleTrace x w t = Some r"
  shows "r \<noteq> Inl SpansOverLimit"
  using assms by (induction rule: handleTrace_induct) simp_all

text \<open>
  When serialization never fails and the cap is positive, a call that buffers something
  leaves the buffer below the cap.
\<close>

lemma handleTrace_leaves_room:
  assumes "handleTrace x w t = Some r"
  shows "t \<noteq> [] \<and> 0 < MaxSpansPerPayload (conf w) \<and> (\<forall>p. \<exists>b. Marshal x p = Inr b) \<longrightarrow>
         (\<forall>w'. r = Inr w' \<longrightarrow> spansInBuffer w' < MaxSpansPerPayload (conf w))"
  using assms
proof (induction rule: handleTrace_induct)
  case (empty w)
  then show ?case by simp
next
  case (fits w t)
  then show ?case by (simp add: spansInBuffer_bufferTrace)
next
  case (fills w t)
  show ?case
  proof (intro impI allI)
    fix w' assume a: "t \<noteq> [] \<and> 0 < MaxSpansPerPayload (conf w) \<and> (\<forall>p. \<exists>b. Marshal x p = Inr b)"
      and r: "Inr (flush x (bufferTrace w t)) = (Inr w' :: panic + traceWriter)"
    let ?w1 = "bufferTrace w t"
    obtain b where b: "Marshal x \<lparr>HostName = hostName ?w1, Env = env ?w1, Traces_payload = traces ?w1\<rparr> = Inr b"
      using a by blast
    have ne: "traces ?w1 \<noteq> []" by (simp add: traces_bufferTrace)
    have "spansInBuffer (flush x ?w1) = 0" using flush_success(2) [OF ne b] .
    then show "spansInBuffer w' < MaxSpansPerPayload (conf w)" using a r by simp
  qed
next
  case (bounds w t)
  then show ?case by simp
next
  case (split w t r)
  let ?k = "nat (MaxSpansPerPayload (conf w) - spansInBuffer w)"
  let ?w1 = "bufferTrace w (take ?k t)"
  have c: "conf (flush x ?w1) = conf w" by (simp add: conf_flush conf_bufferTrace)
  have "drop ?k t \<noteq> []" using split(2,3) by simp
  then show ?case using split(4) c by simp
qed

section \<open>Sequences of calls\<close>

lemma calls_accounts:
  assumes "calls x w cs = Some (Inr w')"
  shows "conf w' = conf w \<and> hostName w' = hostName w \<and> env w' = env w \<and>
         (\<exists>bs. emitted x w w' bs \<and>
               concat (concat bs) @ concat (traces w') = concat (traces w) @ ingested cs)"
  using assms
proof (induction cs arbitrary: w)
  case Nil
  then show ?case using emitted_refl [of w' w x] by auto
next
  case (Cons c cs)
  show ?case
  proof (cases c)
    case (HandleTrace t)
    with Cons.prems obtain w1 where h: "handleTrace x w t = Some (Inr w1)"
      and rest: "calls x w1 cs = Some (Inr w')"
      by (auto split: option.splits sum.splits)
    from handleTrace_accounts [OF h] obtain bs where s1: "conf w1 = conf w" "hostName w1 = hostName w"
      "env w1 = env w" and bs: "emitted x w w1 bs"
      "concat (concat bs) @ concat (traces w1) = concat (traces w) @ t"
      by blast
    from Cons.IH [OF rest] obtain bs' where s2: "conf w' = conf w1" "hostName w' = hostName w1"
      "env w' = env w1" and bs': "emitted x w1 w' bs'"
      "concat (concat bs') @ concat (traces w') = concat (traces w1) @ ingested cs"
      by blast
    have e: "emitted x w w' (bs @ bs')" using emitted_trans [OF bs(1) bs'(1) s1(2,3)] .
    have "concat (concat (bs @ bs')) @ concat (traces w')
          = concat (concat bs) @ concat (traces w1) @ ingested cs"
      using bs'(2) by simp
    also have "\<dots> = concat (traces w) @ t @ ingested cs"
      using bs(2) by (metis append.assoc)
    finally have "concat (concat (bs @ bs')) @ concat (traces w') = concat (traces w) @ ingested (c # cs)"
      using HandleTrace by simp
    with e have "\<exists>bs. emitted x w w' bs \<and>
               concat (concat bs) @ concat (traces w') = concat (traces w) @ ingested (c # cs)"
      by blast
    moreover have "conf w' = conf w" "hostName w' = hostName w" "env w' = env w"
      using s1 s2 by (simp_all only:)
    ultimately show ?thesis by (intro conjI)
  next
    case Flush
    with Cons.prems have rest: "calls x (flush x w) cs = Some (Inr w')" by simp
    obtain bs where bs: "emitted x w (flush x w) bs"
      "concat (concat bs) @ concat (traces (flush x w)) = concat (traces w)"
      using flush_emitted [of x w] by blast
    from Cons.IH [OF rest] obtain bs' where s2: "conf w' = conf (flush x w)"
      "hostName w' = hostName (flush x w)" "env w' = env (flush x w)"
      and bs': "emitted x (flush x w) w' bs'"
      "concat (concat bs') @ concat (traces w') = concat (traces (flush x w)) @ ingested cs"
      by blast
    have e: "emitted x w w' (bs @ bs')"
      using emitted_trans [OF bs(1) bs'(1) hostName_flush env_flush] .
    have "concat (concat (bs @ bs')) @ concat (traces w')
          = concat (concat bs) @ concat (traces (flush x w)) @ ingested cs"
      using bs'(2) by simp
    also have "\<dots> = concat (traces w) @ ingested cs"
      using bs(2) by (metis append.assoc)
    finally have "concat (concat (bs @ bs')) @ concat (traces w') = concat (traces w) @ ingested (c # cs)"
      using Flush by simp
    with e have "\<exists>bs. emitted x w w' bs \<and>
               concat (concat bs) @ concat (traces w') = concat (traces w) @ ingested (c # cs)"
      by blast
    moreover have "conf w' = conf w" "hostName w' = hostName w" "env w' = env w"
      using s2 by (simp_all only: conf_flush hostName_flush env_flush)
    ultimately show ?thesis by (intro conjI)
  qed
qed

lemma calls_returns:
  assumes "0 \<le> spansInBuffer w" and "spansInBuffer w \<le> MaxSpansPerPayload (conf w)"
    and "0 < MaxSpansPerPayload (conf w)" and "\<forall>p. \<exists>b. Marshal x p = Inr b"
  shows "\<exists>w'. calls x w cs = Some (Inr w')"
  using assms(1,2,3)
proof (induction cs arbitrary: w)
  case Nil
  then show ?case by simp
next
  case (Cons c cs)
  show ?case
  proof (cases c)
    case (HandleTrace t)
    obtain r where r: "handleTrace x w t = Some r"
      using handleTrace_returns [OF Cons.prems(3) assms(4) Cons.prems(2)] by blast
    from handleTrace_within_cap [OF r] Cons.prems obtain w1 where w1: "r = Inr w1" "conf w1 = conf w"
      "0 \<le> spansInBuffer w1" "spansInBuffer w1 \<le> MaxSpansPerPayload (conf w1)"
      by blast
    have "\<exists>w'. calls x w1 cs = Some (Inr w')"
      using Cons.IH [of w1] w1 Cons.prems(3) by simp
    then show ?thesis using HandleTrace r w1(1) by simp
  next
    case Flush
    have "0 \<le> spansInBuffer (flush x w) \<and> spansInBuffer (flush x w) \<le> MaxSpansPerPayload (conf w)"
      by (cases x w rule: flush_cases) (use Cons.prems in simp_all)
    then have "\<exists>w'. calls x (flush x w) cs = Some (Inr w')"
      using Cons.IH [of "flush x w"] Cons.prems(3) by (simp add: conf_flush)
    then show ?thesis using Flush by simp
  qed
qed

lemma marshalOK_total: "\<forall>p. \<exists>b. Marshal marshalOK p = Inr b"
  by (simp add: marshalOK_def)

section \<open>The claims about the trace writer\<close>

text \<open>
  C1. From a buffer state within the cap (a span count between 0 and
  \<open>MaxSpansPerPayload\<close>), every call of \<open>handleTrace\<close> that completes returns normally,
  in a state that is within the cap again and under the same configuration. The explicit
  panic for a count over the cap is reached from no state at all. The call does complete
  whenever the cap is positive and serialization does not fail.
\<close>

theorem handleTrace_cap_invariant:
  assumes "0 \<le> spansInBuffer w" and "spansInBuffer w \<le> MaxSpansPerPayload (conf w)"
  shows "(\<forall>r. handleTrace x w t = Some r \<longrightarrow>
            (\<exists>w'. r = Inr w' \<and> conf w' = conf w \<and> 0 \<le> spansInBuffer w'
                  \<and> spansInBuffer w' \<le> MaxSpansPerPayload (conf w')))
         \<and> (\<forall>v u. handleTrace x v u \<noteq> Some (Inl SpansOverLimit))
         \<and> (0 < MaxSpansPerPayload (conf w) \<and> (\<forall>p. \<exists>b. Marshal x p = Inr b) \<longrightarrow>
            (\<exists>w'. handleTrace x w t = Some (Inr w')))"
proof (intro conjI allI impI)
  fix r assume "handleTrace x w t = Some r"
  from handleTrace_within_cap [OF this] assms
  show "\<exists>w'. r = Inr w' \<and> conf w' = conf w \<and> 0 \<le> spansInBuffer w'
                  \<and> spansInBuffer w' \<le> MaxSpansPerPayload (conf w')"
    by blast
next
  fix v u show "handleTrace x v u \<noteq> Some (Inl SpansOverLimit)"
    using handleTrace_never_over_limit [of x v u] by blast
next
  assume a: "0 < MaxSpansPerPayload (conf w) \<and> (\<forall>p. \<exists>b. Marshal x p = Inr b)"
  then obtain r where r: "handleTrace x w t = Some r"
    using handleTrace_returns [of w x t] assms(2) by blast
  from handleTrace_within_cap [OF this] assms obtain w' where "r = Inr w'" by blast
  with r show "\<exists>w'. handleTrace x w t = Some (Inr w')" by blast
qed

theorem handleTrace_cap_invariant_witness:
  "0 \<le> spansInBuffer (emptyWriter 2)
   \<and> spansInBuffer (emptyWriter 2) \<le> MaxSpansPerPayload (conf (emptyWriter 2))
   \<and> (\<exists>w'. handleTrace marshalOK (emptyWriter 2) [exampleSpan 1, exampleSpan 2, exampleSpan 3]
             = Some (Inr w')
          \<and> spansInBuffer w' \<le> MaxSpansPerPayload (conf w'))"
proof -
  have h: "0 \<le> spansInBuffer (emptyWriter 2)"
    "spansInBuffer (emptyWriter 2) \<le> MaxSpansPerPayload (conf (emptyWriter 2))"
    "0 < MaxSpansPerPayload (conf (emptyWriter 2))"
    by (simp_all add: emptyWriter_def)
  from handleTrace_cap_invariant [OF h(1,2), of marshalOK "[exampleSpan 1, exampleSpan 2, exampleSpan 3]"]
    h(3) marshalOK_total
  have "\<exists>w'. handleTrace marshalOK (emptyWriter 2) [exampleSpan 1, exampleSpan 2, exampleSpan 3]
             = Some (Inr w')
          \<and> spansInBuffer w' \<le> MaxSpansPerPayload (conf w')"
    by blast
  with h(1,2) show ?thesis by blast
qed

lemma length_concat_batches:
  "\<forall>b \<in> set bs. int (length (concat b)) = m \<Longrightarrow> int (length (concat (concat bs))) = int (length bs) * m"
  by (induction bs) (simp_all add: algebra_simps)

text \<open>
  C2. In a buffer state within the cap, let a trace overflow the buffer by
  \<open>overflow > 0\<close> spans. Then \<open>handleTrace\<close> buffers exactly the first
  \<open>len(trace) - overflow\<close> spans, which fills the buffer to \<open>MaxSpansPerPayload\<close>,
  calls \<open>flush\<close>, and handles the remaining spans, of which there is at least one, as a
  trace of their own. For every result the call returns: the sender has received one
  payload per batch of a list of batches, and the spans of these batches, in order,
  followed by the spans left in the buffer are the spans buffered before followed by the
  trace; when the span count was that of the buffered traces, every batch holds exactly
  \<open>MaxSpansPerPayload\<close> spans and only the buffer left over may hold fewer. The call
  returns, with room left in the buffer, when the cap is positive and serialization does
  not fail.
\<close>

theorem handleTrace_splits_overflowing_trace:
  assumes "0 \<le> spansInBuffer w" and "spansInBuffer w \<le> MaxSpansPerPayload (conf w)"
    and "0 < spansInBuffer w + int (length t) - MaxSpansPerPayload (conf w)"
  shows "let overflow = spansInBuffer w + int (length t) - MaxSpansPerPayload (conf w);
             splitIndex = nat (int (length t) - overflow);
             filled = w\<lparr>traces := traces w @ [APITrace (take splitIndex t)],
                        spansInBuffer := spansInBuffer w + int (length (take splitIndex t))\<rparr>
         in spansInBuffer filled = MaxSpansPerPayload (conf w)
            \<and> drop splitIndex t \<noteq> []
            \<and> handleTrace x w t = handleTrace x (flush x filled) (drop splitIndex t)
            \<and> (\<forall>r. handleTrace x w t = Some r \<longrightarrow>
                 (\<exists>w' bs. r = Inr w' \<and> emitted x w w' bs
                    \<and> concat (concat bs) @ concat (traces w') = concat (traces w) @ t
                    \<and> (spansInBuffer w = int (length (concat (traces w))) \<longrightarrow>
                         (\<forall>b \<in> set bs. int (length (concat b)) = MaxSpansPerPayload (conf w))
                         \<and> spansInBuffer w' = int (length (concat (traces w')))
                         \<and> spansInBuffer w' \<le> MaxSpansPerPayload (conf w)
                         \<and> int (length bs) * MaxSpansPerPayload (conf w) + spansInBuffer w'
                             = spansInBuffer w + int (length t))))
            \<and> (0 < MaxSpansPerPayload (conf w) \<and> (\<forall>p. \<exists>b. Marshal x p = Inr b) \<longrightarrow>
                 (\<exists>w'. handleTrace x w t = Some (Inr w')
                    \<and> spansInBuffer w' < MaxSpansPerPayload (conf w)))"
proof -
  let ?M = "MaxSpansPerPayload (conf w)"
  let ?k = "nat (?M - spansInBuffer w)"
  have k: "nat (int (length t) - (spansInBuffer w + int (length t) - ?M)) = ?k"
    by (simp add: algebra_simps)
  have ne: "t \<noteq> []" using assms(2,3) by auto
  have over: "?M < spansInBuffer w + int (length t)" using assms(3) by simp
  have a: "spansInBuffer w + int (length (take ?k t)) = ?M"
    using assms(2) over by (simp add: min_def)
  have b: "drop ?k t \<noteq> []" using assms(2) over by simp
  have c: "handleTrace x w t
           = handleTrace x (flush x (w\<lparr>traces := traces w @ [APITrace (take ?k t)],
                        spansInBuffer := spansInBuffer w + int (length (take ?k t))\<rparr>)) (drop ?k t)"
    using ne over assms(2) by (subst handleTrace_unfold) (simp add: bufferTrace_def)
  have d: "\<exists>w' bs. r = Inr w' \<and> emitted x w w' bs
                    \<and> concat (concat bs) @ concat (traces w') = concat (traces w) @ t
                    \<and> (spansInBuffer w = int (length (concat (traces w))) \<longrightarrow>
                         (\<forall>b \<in> set bs. int (length (concat b)) = ?M)
                         \<and> spansInBuffer w' = int (length (concat (traces w')))
                         \<and> spansInBuffer w' \<le> ?M
                         \<and> int (length bs) * ?M + spansInBuffer w' = spansInBuffer w + int (length t))"
    if r: "handleTrace x w t = Some r" for r
  proof -
    from handleTrace_within_cap [OF r] assms(1,2) obtain w' where w': "r = Inr w'" "conf w' = conf w"
      "spansInBuffer w' \<le> MaxSpansPerPayload (conf w')"
      by blast
    from handleTrace_accounts [OF r] w'(1) obtain bs where bs: "emitted x w w' bs"
      "concat (concat bs) @ concat (traces w') = concat (traces w) @ t"
      "spansInBuffer w = int (length (concat (traces w))) \<longrightarrow>
         spansInBuffer w' = int (length (concat (traces w'))) \<and>
         (\<forall>b \<in> set bs. int (length (concat b)) = ?M)"
      by blast
    have "(\<forall>b \<in> set bs. int (length (concat b)) = ?M)
          \<and> spansInBuffer w' = int (length (concat (traces w')))
          \<and> spansInBuffer w' \<le> ?M
          \<and> int (length bs) * ?M + spansInBuffer w' = spansInBuffer w + int (length t)"
      if cons: "spansInBuffer w = int (length (concat (traces w)))"
    proof -
      from bs(3) cons have s: "spansInBuffer w' = int (length (concat (traces w')))"
        and m: "\<forall>b \<in> set bs. int (length (concat b)) = ?M"
        by blast+
      have "int (length (concat (concat bs) @ concat (traces w'))) = int (length (concat (traces w) @ t))"
        by (simp only: bs(2))
      then have "int (length (concat (concat bs))) + spansInBuffer w' = spansInBuffer w + int (length t)"
        using s cons by simp
      then have "int (length bs) * ?M + spansInBuffer w' = spansInBuffer w + int (length t)"
        by (simp only: length_concat_batches [OF m])
      with s m w'(2,3) show ?thesis by simp
    qed
    with w'(1) bs(1,2) show ?thesis by blast
  qed
  have e: "\<exists>w'. handleTrace x w t = Some (Inr w') \<and> spansInBuffer w' < ?M"
    if h: "0 < ?M \<and> (\<forall>p. \<exists>b. Marshal x p = Inr b)"
  proof -
    obtain r where r: "handleTrace x w t = Some r"
      using handleTrace_returns [of w x t] h assms(2) by blast
    from handleTrace_within_cap [OF r] assms(1,2) obtain w' where w': "r = Inr w'" by blast
    from handleTrace_leaves_room [OF r] ne h w' have "spansInBuffer w' < ?M" by blast
    with r w' show ?thesis by blast
  qed
  show ?thesis
    unfolding Let_def k using a b c d e by (intro conjI allI impI) simp_all
qed

theorem handleTrace_splits_overflowing_trace_witness:
  "0 \<le> spansInBuffer (emptyWriter 2)
   \<and> spansInBuffer (emptyWriter 2) \<le> MaxSpansPerPayload (conf (emptyWriter 2))
   \<and> 0 < spansInBuffer (emptyWriter 2)
         + int (length [exampleSpan 1, exampleSpan 2, exampleSpan 3, exampleSpan 4, exampleSpan 5])
         - MaxSpansPerPayload (conf (emptyWriter 2))
   \<and> handleTrace marshalOK (emptyWriter 2)
         [exampleSpan 1, exampleSpan 2, exampleSpan 3, exampleSpan 4, exampleSpan 5]
       = handleTrace marshalOK
           (flush marshalOK ((emptyWriter 2)\<lparr>traces := [[exampleSpan 1, exampleSpan 2]], spansInBuffer := 2\<rparr>))
           [exampleSpan 3, exampleSpan 4, exampleSpan 5]
   \<and> (\<exists>w' bs. handleTrace marshalOK (emptyWriter 2)
                 [exampleSpan 1, exampleSpan 2, exampleSpan 3, exampleSpan 4, exampleSpan 5]
               = Some (Inr w')
            \<and> emitted marshalOK (emptyWriter 2) w' bs
            \<and> concat (concat bs) @ concat (traces w')
                = [exampleSpan 1, exampleSpan 2, exampleSpan 3, exampleSpan 4, exampleSpan 5]
            \<and> (\<forall>b \<in> set bs. int (length (concat b)) = 2)
            \<and> int (length bs) * 2 + spansInBuffer w' = 5
            \<and> spansInBuffer w' < 2)"
proof -
  let ?t = "[exampleSpan 1, exampleSpan 2, exampleSpan 3, exampleSpan 4, exampleSpan 5]"
  have h: "0 \<le> spansInBuffer (emptyWriter 2)"
    "spansInBuffer (emptyWriter 2) \<le> MaxSpansPerPayload (conf (emptyWriter 2))"
    "0 < spansInBuffer (emptyWriter 2) + int (length ?t) - MaxSpansPerPayload (conf (emptyWriter 2))"
    by (simp_all add: emptyWriter_def)
  have v: "MaxSpansPerPayload (conf (emptyWriter 2)) = 2" "spansInBuffer (emptyWriter 2) = 0"
    "traces (emptyWriter 2) = []"
    by (simp_all add: emptyWriter_def)
  note th = handleTrace_splits_overflowing_trace [OF h, of marshalOK, unfolded Let_def]
  note p3 = th [THEN conjunct2, THEN conjunct2, THEN conjunct1]
  note p4 = th [THEN conjunct2, THEN conjunct2, THEN conjunct2, THEN conjunct1]
  note p5 = th [THEN conjunct2, THEN conjunct2, THEN conjunct2, THEN conjunct2]
  have step: "handleTrace marshalOK (emptyWriter 2) ?t
       = handleTrace marshalOK
           (flush marshalOK ((emptyWriter 2)\<lparr>traces := [[exampleSpan 1, exampleSpan 2]], spansInBuffer := 2\<rparr>))
           [exampleSpan 3, exampleSpan 4, exampleSpan 5]"
    using p3 by (simp add: v APITrace_def)
  from p5 marshalOK_total have "\<exists>w'. handleTrace marshalOK (emptyWriter 2) ?t = Some (Inr w')
      \<and> spansInBuffer w' < 2"
    by (simp add: v)
  then obtain w' where w': "handleTrace marshalOK (emptyWriter 2) ?t = Some (Inr w')"
    "spansInBuffer w' < 2"
    by blast
  from p4 [rule_format, OF w'(1)] have "\<exists>bs. emitted marshalOK (emptyWriter 2) w' bs
      \<and> concat (concat bs) @ concat (traces w') = ?t
      \<and> (\<forall>b \<in> set bs. int (length (concat b)) = 2)
      \<and> int (length bs) * 2 + spansInBuffer w' = 5"
    by (simp add: v) blast
  then obtain bs where bs: "emitted marshalOK (emptyWriter 2) w' bs"
    "concat (concat bs) @ concat (traces w') = ?t"
    "\<forall>b \<in> set bs. int (length (concat b)) = 2"
    "int (length bs) * 2 + spansInBuffer w' = 5"
    by blast
  have "\<exists>w' bs. handleTrace marshalOK (emptyWriter 2) ?t = Some (Inr w')
            \<and> emitted marshalOK (emptyWriter 2) w' bs
            \<and> concat (concat bs) @ concat (traces w') = ?t
            \<and> (\<forall>b \<in> set bs. int (length (concat b)) = 2)
            \<and> int (length bs) * 2 + spansInBuffer w' = 5
            \<and> spansInBuffer w' < 2"
    using w' bs by blast
  with h step show ?thesis by (intro conjI)
qed

text \<open>
  C3. For every sequence of \<open>handleTrace\<close> and \<open>flush\<close> calls that completes, the sender
  has received one payload per batch of a list of batches, and the spans of these batches
  together with the spans in the buffer are, as multisets, the spans buffered at the start
  together with the spans of the traces handled: none is lost and none is duplicated. The
  sequence does complete from a state within the cap when the cap is positive and
  serialization does not fail.
\<close>

theorem spans_conserved:
  "(\<forall>w'. calls x w cs = Some (Inr w') \<longrightarrow>
      (\<exists>bs. emitted x w w' bs
         \<and> mset (concat (concat bs)) + mset (concat (traces w'))
             = mset (concat (traces w)) + mset (ingested cs)))
   \<and> (0 \<le> spansInBuffer w \<and> spansInBuffer w \<le> MaxSpansPerPayload (conf w)
        \<and> 0 < MaxSpansPerPayload (conf w) \<and> (\<forall>p. \<exists>b. Marshal x p = Inr b) \<longrightarrow>
      (\<exists>w'. calls x w cs = Some (Inr w')))"
proof (intro conjI allI impI)
  fix w' assume "calls x w cs = Some (Inr w')"
  from calls_accounts [OF this] obtain bs where bs: "emitted x w w' bs"
    "concat (concat bs) @ concat (traces w') = concat (traces w) @ ingested cs"
    by blast
  have "mset (concat (concat bs) @ concat (traces w')) = mset (concat (traces w) @ ingested cs)"
    by (simp only: bs(2))
  then have "mset (concat (concat bs)) + mset (concat (traces w'))
             = mset (concat (traces w)) + mset (ingested cs)"
    by (simp only: mset_append)
  with bs(1) show "\<exists>bs. emitted x w w' bs
         \<and> mset (concat (concat bs)) + mset (concat (traces w'))
             = mset (concat (traces w)) + mset (ingested cs)"
    by blast
next
  assume "0 \<le> spansInBuffer w \<and> spansInBuffer w \<le> MaxSpansPerPayload (conf w)
        \<and> 0 < MaxSpansPerPayload (conf w) \<and> (\<forall>p. \<exists>b. Marshal x p = Inr b)"
  then show "\<exists>w'. calls x w cs = Some (Inr w')"
    using calls_returns [of w x cs] by blast
qed

theorem spans_conserved_witness:
  "\<exists>w' bs. calls marshalOK (emptyWriter 2)
              [HandleTrace [exampleSpan 1, exampleSpan 2, exampleSpan 3], Flush, HandleTrace [exampleSpan 4]]
            = Some (Inr w')
     \<and> emitted marshalOK (emptyWriter 2) w' bs
     \<and> mset (concat (concat bs)) + mset (concat (traces w'))
         = mset [exampleSpan 1, exampleSpan 2, exampleSpan 3, exampleSpan 4]"
proof -
  let ?cs = "[HandleTrace [exampleSpan 1, exampleSpan 2, exampleSpan 3], Flush, HandleTrace [exampleSpan 4]]"
  note th = spans_conserved [of marshalOK "emptyWriter 2" ?cs]
  have "0 \<le> spansInBuffer (emptyWriter 2) \<and> spansInBuffer (emptyWriter 2) \<le> MaxSpansPerPayload (conf (emptyWriter 2))
        \<and> 0 < MaxSpansPerPayload (conf (emptyWriter 2)) \<and> (\<forall>p. \<exists>b. Marshal marshalOK p = Inr b)"
    using marshalOK_total by (simp add: emptyWriter_def)
  with th obtain w' where w': "calls marshalOK (emptyWriter 2) ?cs = Some (Inr w')" by blast
  with th obtain bs where "emitted marshalOK (emptyWriter 2) w' bs"
    "mset (concat (concat bs)) + mset (concat (traces w'))
       = mset (concat (traces (emptyWriter 2))) + mset (ingested ?cs)"
    by blast
  then have "emitted marshalOK (emptyWriter 2) w' bs
     \<and> mset (concat (concat bs)) + mset (concat (traces w'))
         = mset [exampleSpan 1, exampleSpan 2, exampleSpan 3, exampleSpan 4]"
    by (simp add: emptyWriter_def)
  with w' show ?thesis by blast
qed

section \<open>Serialization failure in \<open>flush\<close>\<close>

text \<open>
  While serialization keeps failing, a call of \<open>handleTrace\<close> with a trace that
  overflows the buffer never returns: \<open>flush\<close> leaves the full buffer as it is, and every
  further call splits at index 0.
\<close>

lemma handleTrace_diverges:
  assumes fails: "\<forall>p. \<exists>err. Marshal x p = Inl err"
    and "spansInBuffer w \<le> MaxSpansPerPayload (conf w)"
    and "MaxSpansPerPayload (conf w) < spansInBuffer w + int (length t)"
  shows "handleTrace x w t = None"
proof (rule ccontr)
  assume "handleTrace x w t \<noteq> None"
  then obtain r where r: "handleTrace x w t = Some r" by blast
  have "\<not> (spansInBuffer w \<le> MaxSpansPerPayload (conf w)
           \<and> MaxSpansPerPayload (conf w) < spansInBuffer w + int (length t))"
    using r
  proof (induction rule: handleTrace_induct)
    case (split w t r)
    let ?k = "nat (MaxSpansPerPayload (conf w) - spansInBuffer w)"
    let ?w1 = "bufferTrace w (take ?k t)"
    obtain err where err: "Marshal x \<lparr>HostName = hostName ?w1, Env = env ?w1, Traces_payload = traces ?w1\<rparr> = Inl err"
      using fails by blast
    have ne: "traces ?w1 \<noteq> []" by (simp add: traces_bufferTrace)
    have s: "spansInBuffer (flush x ?w1) = MaxSpansPerPayload (conf w)"
      using flush_failure(2) [OF ne err] split(2,3) by (simp add: spansInBuffer_bufferTrace min_def)
    have c: "conf (flush x ?w1) = conf w" by (simp add: conf_flush conf_bufferTrace)
    have d: "0 < int (length (drop ?k t))" using split(2,3) by simp
    have "spansInBuffer (flush x ?w1) \<le> MaxSpansPerPayload (conf (flush x ?w1))
          \<and> MaxSpansPerPayload (conf (flush x ?w1))
              < spansInBuffer (flush x ?w1) + int (length (drop ?k t))"
      unfolding s c using d by linarith
    with split(4) show ?case by blast
  qed simp_all
  then show False using assms(2,3) by simp
qed

text \<open>
  C4, at the failing input. The buffer holds one trace of one span and serialization
  fails: after \<open>flush\<close> the buffer still holds the trace and the span count is still 1,
  although the two counters have been added to and nothing was handed to the sender. With
  the same failure, \<open>handleTrace\<close> on a trace of three spans and a cap of two never
  returns.
\<close>

theorem flush_keeps_buffer_when_marshal_fails:
  "traces (flush marshalFails oneSpanWriter) = [[exampleSpan 1]]
   \<and> spansInBuffer (flush marshalFails oneSpanWriter) = 1
   \<and> payloadSender (flush marshalFails oneSpanWriter) = []
   \<and> Traces (stats (flush marshalFails oneSpanWriter)) = 1
   \<and> Spans (stats (flush marshalFails oneSpanWriter)) = 1
   \<and> handleTrace marshalFails (emptyWriter 2) [exampleSpan 1, exampleSpan 2, exampleSpan 3] = None"
proof -
  have "handleTrace marshalFails (emptyWriter 2) [exampleSpan 1, exampleSpan 2, exampleSpan 3] = None"
    by (rule handleTrace_diverges) (simp_all add: marshalFails_def emptyWriter_def)
  then show ?thesis
    by (simp add: flush_def oneSpanWriter_def emptyWriter_def marshalFails_def Let_def)
qed

text \<open>What \<open>flush\<close> does when serialization succeeds, for comparison.\<close>

lemma flush_resets_buffer_when_marshal_succeeds:
  assumes "traces w \<noteq> []"
    and "Marshal x \<lparr>HostName = hostName w, Env = env w, Traces_payload = traces w\<rparr> = Inr b"
  shows "flush x w =
           w\<lparr>stats := (stats w)\<lparr>Traces := Traces (stats w) + of_nat (length (traces w)),
                               Spans := Spans (stats w) + word_of_int (spansInBuffer w),
                               Bytes := Bytes (stats w) + of_nat (length b)\<rparr>,
             payloadSender := payloadSender w @ [NewPayload b (flushHeaders x)],
             traces := [], spansInBuffer := 0\<rparr>"
  using assms by (simp add: flush_def Let_def)

section \<open>The sender-event loop and \<open>updateInfo\<close>\<close>

lemma monitor_Nil: "monitor w [] = w"
  by (simp add: monitor_def)

lemma monitor_snoc: "monitor w (events @ [e]) = monitorEvent (monitor w events) e"
  by (simp add: monitor_def)

lemma stats_monitorEvent:
  "stats (monitorEvent w e) =
     (stats w)\<lparr>Payloads := Payloads (stats w) + (if isSuccess e then 1 else 0),
               Errors := Errors (stats w) + (if isFailure e then 1 else 0),
               Retries := Retries (stats w) + (if isRetry e then 1 else 0)\<rparr>"
  by (cases e) (simp_all add: isSuccess_def isFailure_def isRetry_def Let_def)

text \<open>
  C5. After the loop has consumed a finite sequence of sender events, \<open>Payloads\<close> has grown
  by the number of success events, \<open>Errors\<close> by the number of failure events and
  \<open>Retries\<close> by the number of retry events, in 64-bit arithmetic; the other three counters
  are as before. One event adds exactly 1 to the counter of its kind, and a \<open>nil\<close> event
  or one of another type changes no counter. From zero, one success, two retries and one
  failure give \<open>Payloads = 1\<close>, \<open>Retries = 2\<close>, \<open>Errors = 1\<close>.
\<close>

theorem monitor_counts_events:
  "stats (monitor w events) =
     (stats w)\<lparr>Payloads := Payloads (stats w) + of_nat (length (filter isSuccess events)),
               Errors := Errors (stats w) + of_nat (length (filter isFailure events)),
               Retries := Retries (stats w) + of_nat (length (filter isRetry events))\<rparr>
   \<and> stats (monitorEvent w (SenderSuccessEvent s p)) = (stats w)\<lparr>Payloads := Payloads (stats w) + 1\<rparr>
   \<and> stats (monitorEvent w (SenderFailureEvent s p err)) = (stats w)\<lparr>Errors := Errors (stats w) + 1\<rparr>
   \<and> stats (monitorEvent w (SenderRetryEvent n d err)) = (stats w)\<lparr>Retries := Retries (stats w) + 1\<rparr>
   \<and> stats (monitorEvent w OtherEvent) = stats w
   \<and> stats (monitorEvent w NilEvent) = stats w
   \<and> stats (monitor (emptyWriter 1000) exampleEvents) =
        \<lparr>Payloads = 1, Traces = 0, Spans = 0, Bytes = 0, Retries = 2, Errors = 1\<rparr>"
proof -
  have "stats (monitor w events) =
     (stats w)\<lparr>Payloads := Payloads (stats w) + of_nat (length (filter isSuccess events)),
               Errors := Errors (stats w) + of_nat (length (filter isFailure events)),
               Retries := Retries (stats w) + of_nat (length (filter isRetry events))\<rparr>"
  proof (induction events rule: rev_induct)
    case Nil
    show ?case by (simp add: monitor_Nil)
  next
    case (snoc e events)
    show ?case
      by (simp add: monitor_snoc stats_monitorEvent snoc.IH)
  qed
  moreover have "stats (monitor (emptyWriter 1000) exampleEvents) =
        \<lparr>Payloads = 1, Traces = 0, Spans = 0, Bytes = 0, Retries = 2, Errors = 1\<rparr>"
    by (simp add: monitor_def exampleEvents_def emptyWriter_def Let_def)
  ultimately show ?thesis by (simp add: Let_def)
qed

text \<open>
  C6. Run with no concurrent increment, \<open>updateInfo\<close> leaves every counter at zero, makes
  six \<open>Count\<close> calls on the stats client, named \<open>payloads\<close>, \<open>traces\<close>, \<open>spans\<close>,
  \<open>bytes\<close>, \<open>retries\<close> and \<open>errors\<close> and carrying the values the counters had before,
  and gives those same values to the info registry. It changes nothing else.
\<close>

theorem updateInfo_publishes_and_resets:
  "stats (updateInfo w) = \<lparr>Payloads = 0, Traces = 0, Spans = 0, Bytes = 0, Retries = 0, Errors = 0\<rparr>
   \<and> statsClient (updateInfo w) = statsClient w @
        [Count ''datadog.trace_agent.trace_writer.payloads'' (Payloads (stats w)),
         Count ''datadog.trace_agent.trace_writer.traces'' (Traces (stats w)),
         Count ''datadog.trace_agent.trace_writer.spans'' (Spans (stats w)),
         Count ''datadog.trace_agent.trace_writer.bytes'' (Bytes (stats w)),
         Count ''datadog.trace_agent.trace_writer.retries'' (Retries (stats w)),
         Count ''datadog.trace_agent.trace_writer.errors'' (Errors (stats w))]
   \<and> infoTraceWriter (updateInfo w) = stats w
   \<and> updateInfo w = w\<lparr>stats := stats (updateInfo w), statsClient := statsClient (updateInfo w),
                        infoTraceWriter := infoTraceWriter (updateInfo w)\<rparr>"
  by (simp add: updateInfo_def Let_def)

text \<open>
  The scenario of the spec: the four sender events, then a publication. The stats client
  receives the gauge of the success event and then the six counts, and the counters are
  back at zero.
\<close>

lemma sender_accounting_scenario:
  "statsClient (updateInfo (monitor (emptyWriter 1000) exampleEvents)) =
     [Gauge ''datadog.trace_agent.trace_writer.flush_duration'' 250000000,
      Count ''datadog.trace_agent.trace_writer.payloads'' 1,
      Count ''datadog.trace_agent.trace_writer.traces'' 0,
      Count ''datadog.trace_agent.trace_writer.spans'' 0,
      Count ''datadog.trace_agent.trace_writer.bytes'' 0,
      Count ''datadog.trace_agent.trace_writer.retries'' 2,
      Count ''datadog.trace_agent.trace_writer.errors'' 1]
   \<and> stats (updateInfo (monitor (emptyWriter 1000) exampleEvents)) =
       \<lparr>Payloads = 0, Traces = 0, Spans = 0, Bytes = 0, Retries = 0, Errors = 0\<rparr>"
  by (simp add: updateInfo_def monitor_def exampleEvents_def emptyWriter_def Let_def)

section \<open>Scenarios\<close>

text \<open>
  A single trace of 25 spans under a cap of 10: \<open>handleTrace\<close> hands two payloads of 10
  spans to the sender and leaves 5 spans in the buffer, which the next \<open>flush\<close> sends.
  \<open>marshalOK\<close> writes the number of spans of each trace, so the bytes of the payloads
  show their sizes.
\<close>

lemma oversized_trace_scenario:
  "map_option (map_sum id (\<lambda>w. (map Bytes_payload (payloadSender w), map length (traces w), spansInBuffer w)))
     (handleTrace marshalOK (emptyWriter 10) (map exampleSpan [1, 2, 3, 4, 5, 6, 7, 8, 9, 10, 11, 12, 13,
        14, 15, 16, 17, 18, 19, 20, 21, 22, 23, 24, 25]))
   = Some (Inr ([[10], [10]], [5], 5))
   \<and> map_option (map_sum id (\<lambda>w. (map Bytes_payload (payloadSender w), map length (traces w), spansInBuffer w)))
     (calls marshalOK (emptyWriter 10) [HandleTrace (map exampleSpan [1, 2, 3, 4, 5, 6, 7, 8, 9, 10, 11, 12, 13,
        14, 15, 16, 17, 18, 19, 20, 21, 22, 23, 24, 25]), Flush])
   = Some (Inr ([[10], [10], [5]], [], 0))"
  by (simp add: handleTrace_unfold emptyWriter_def marshalOK_def flush_def bufferTrace_def
      APITrace_def NewPayload_def Let_def)

text \<open>
  Three traces of 10 spans under a cap of 100, then a \<open>flush\<close>: one payload with the 30
  spans, and the counters \<open>Traces = 3\<close>, \<open>Spans = 30\<close>. Five traces of 10 spans under a
  cap of 50: one payload with the 50 spans, sent by the fifth \<open>handleTrace\<close>, and an empty
  buffer.
\<close>

lemma batching_scenarios:
  "map_option (map_sum id (\<lambda>w. (map Bytes_payload (payloadSender w), Traces (stats w), Spans (stats w))))
     (calls marshalOK (emptyWriter 100)
        [HandleTrace tenSpans, HandleTrace tenSpans, HandleTrace tenSpans, Flush])
   = Some (Inr ([[10, 10, 10]], 3, 30))
   \<and> map_option (map_sum id (\<lambda>w. (map Bytes_payload (payloadSender w), traces w, spansInBuffer w)))
     (calls marshalOK (emptyWriter 50)
        [HandleTrace tenSpans, HandleTrace tenSpans, HandleTrace tenSpans, HandleTrace tenSpans,
         HandleTrace tenSpans])
   = Some (Inr ([[10, 10, 10, 10, 10]], [], 0))"
  by (simp add: handleTrace_unfold emptyWriter_def marshalOK_def flush_def bufferTrace_def
      APITrace_def NewPayload_def tenSpans_def Let_def)

section \<open>The normalizer never panics\<close>

lemma normLoop_nonempty:
  "res \<noteq> [] \<Longrightarrow> \<exists>r. normLoop bs res = Inr r \<and> r \<noteq> []"
  by (induction bs arbitrary: res) auto

lemma normLoop_alpha_first:
  assumes "isAlpha b"
  shows "\<exists>r. normLoop (b # bs) [] = Inr r \<and> r \<noteq> []"
  using assms normLoop_nonempty [of "[b]" bs] by (simp add: isAlphaNum_def)

lemma normMetricNameParse_returns: "\<exists>n ok. normMetricNameParse name = Inr (n, ok)"
proof (cases "name = [] \<or> length name > MaxNameLen \<or> dropWhile (\<lambda>b. \<not> isAlpha b) name = []")
  case True
  then show ?thesis by (auto simp: normMetricNameParse_def Let_def)
next
  case False
  then obtain b bs where d: "dropWhile (\<lambda>b. \<not> isAlpha b) name = b # bs"
    by (cases "dropWhile (\<lambda>b. \<not> isAlpha b) name") auto
  then have "isAlpha b" using hd_dropWhile [of "\<lambda>b. \<not> isAlpha b" name] by auto
  then obtain r where "normLoop (b # bs) [] = Inr r" "r \<noteq> []"
    using normLoop_alpha_first by blast
  then show ?thesis using False d by (auto simp: normMetricNameParse_def Let_def)
qed

lemma metaSet_after_lookup:
  "metaLookup m k = Some v \<Longrightarrow> \<exists>m'. metaSet m k v' = Inr m'"
  by (cases m) (simp_all add: metaLookup_def metaSet_def)

lemma Normalize_returns: "\<exists>s' err. Normalize e s = Inr (s', err)"
proof -
  obtain n ok where n: "normMetricNameParse (Name s) = Inr (n, ok)"
    using normMetricNameParse_returns by blast
  show ?thesis
  proof (cases "metaLookup (Meta s) ''env''")
    case None
    then show ?thesis using n by (simp add: Normalize_def Let_def)
  next
    case (Some tag)
    then obtain m' where "metaSet (Meta s) ''env'' (NormalizeTag e tag) = Inr m'"
      using metaSet_after_lookup by blast
    then show ?thesis using n Some by (simp add: Normalize_def Let_def)
  qed
qed


section \<open>What \<open>Normalize\<close> rejects\<close>

text \<open>
  The condition under which \<open>Normalize\<close> is certain to return an error, as the code
  tests it: lengths in bytes, and the end of the span as the 64-bit sum
  \<open>Start + Duration\<close>.
\<close>

lemma Normalize_rejects:
  assumes "Service s = [] \<or> Name s = [] \<or> Resource s = []
           \<or> MaxServiceLen < length (Service s) \<or> MaxNameLen < length (Name s)
           \<or> MaxTypeLen < length (Type s)
           \<or> sint (Start s) < Year2000NanosecTS
           \<or> Now e + MaxEndDateOffset < sint (Start s + Duration s)
           \<or> sint (Duration s) \<le> 0"
  shows "\<exists>s' err. Normalize e s = Inr (s', Some err)"
proof -
  obtain n ok where n: "normMetricNameParse (Name s) = Inr (n, ok)"
    using normMetricNameParse_returns by blast
  show ?thesis
    using assms n by (auto simp: Normalize_def Let_def)
qed





section \<open>What \<open>NormalizeTrace\<close> rejects\<close>

lemma normalizeSpans_returns: "\<exists>t' err. normalizeSpans e traceID spanIDs t = Inr (t', err)"
proof (induction t arbitrary: spanIDs)
  case Nil
  show ?case by simp
next
  case (Cons s t)
  obtain s' err where s': "Normalize e s = Inr (s', err)"
    using Normalize_returns by blast
  obtain t' err' where t': "normalizeSpans e traceID (insert (SpanID s) spanIDs) t = Inr (t', err')"
    using Cons.IH by blast
  show ?case using s' t' by (cases err) auto
qed

text \<open>
  When the loop accepts a trace, no span of it has an ID seen before, every span has the
  trace ID, \<open>Normalize\<close> accepted every span, and the span IDs differ from one another.
\<close>

lemma normalizeSpans_accepts:
  assumes "normalizeSpans e traceID spanIDs t = Inr (t', None)"
  shows "(\<forall>s \<in> set t. SpanID s \<notin> spanIDs \<and> TraceID s = traceID
            \<and> (\<exists>s'. Normalize e s = Inr (s', None)))
         \<and> distinct (map SpanID t)"
  using assms
proof (induction t arbitrary: spanIDs t')
  case Nil
  show ?case by simp
next
  case (Cons s t)
  from Cons.prems obtain s' r where s: "SpanID s \<notin> spanIDs" "TraceID s = traceID"
    "Normalize e s = Inr (s', None)"
    and r: "normalizeSpans e traceID (insert (SpanID s) spanIDs) t = Inr (r, None)"
    by (auto split: if_splits sum.splits option.splits prod.splits)
  from Cons.IH [OF r] have ih: "\<forall>u \<in> set t. SpanID u \<notin> insert (SpanID s) spanIDs \<and> TraceID u = traceID
            \<and> (\<exists>s'. Normalize e u = Inr (s', None))"
    "distinct (map SpanID t)"
    by blast+
  have "SpanID s \<notin> SpanID ` set t" using ih(1) by auto
  then show ?case using s ih by auto
qed

text \<open>
  \<open>NormalizeTrace\<close> returns an error for an empty trace, for a trace in which two spans
  share a span ID or some span has another trace ID than the first, and for a trace with
  a span that \<open>Normalize\<close> rejects. The end of a span is the 64-bit sum here, as in
  \<open>Normalize_rejects\<close>.
\<close>

lemma NormalizeTrace_rejects:
  assumes "t = [] \<or> \<not> distinct (map SpanID t) \<or> (\<exists>s \<in> set t. TraceID s \<noteq> TraceID (hd t))
           \<or> (\<exists>s \<in> set t. \<exists>s' err. Normalize e s = Inr (s', Some err))"
  shows "\<exists>t' err. NormalizeTrace e t = Inr (t', Some err)"
proof (cases t)
  case Nil
  then show ?thesis by (simp add: NormalizeTrace_def)
next
  case (Cons first rest)
  obtain t' err where r: "normalizeSpans e (TraceID first) {} t = Inr (t', err)"
    using normalizeSpans_returns by blast
  have "err \<noteq> None"
  proof
    assume "err = None"
    with r have "normalizeSpans e (TraceID first) {} t = Inr (t', None)" by simp
    from normalizeSpans_accepts [OF this] assms Cons show False by auto
  qed
  then show ?thesis using r Cons by (auto simp: NormalizeTrace_def)
qed

lemma NormalizeTrace_rejects_invalid_span:
  assumes "s \<in> set t"
    and "Service s = [] \<or> Name s = [] \<or> Resource s = []
           \<or> MaxServiceLen < length (Service s) \<or> MaxNameLen < length (Name s)
           \<or> MaxTypeLen < length (Type s)
           \<or> sint (Start s) < Year2000NanosecTS
           \<or> Now e + MaxEndDateOffset < sint (Start s + Duration s)
           \<or> sint (Duration s) \<le> 0"
  shows "\<exists>t' err. NormalizeTrace e t = Inr (t', Some err)"
  using NormalizeTrace_rejects [of t e] Normalize_rejects [OF assms(2)] assms(1) by blast

text \<open>
  C7, at the failing input. The span \<open>lateSpan\<close> starts at nanosecond \<open>2^63 - 1\<close> and
  lasts one nanosecond, so it ends more than two centuries after the clock of
  \<open>exampleEnv\<close>, far more than ten minutes in the future. The \<open>int64\<close> sum
  \<open>Start + Duration\<close> wraps around to \<open>-2^63\<close>, the test against the clock does not
  fire, and \<open>NormalizeTrace\<close> returns the trace with no error.
\<close>

theorem NormalizeTrace_accepts_end_after_int64:
  "Now exampleEnv + MaxEndDateOffset < sint (Start lateSpan) + sint (Duration lateSpan)
   \<and> sint (Start lateSpan + Duration lateSpan) = - (2 ^ 63)
   \<and> Normalize exampleEnv lateSpan = Inr (lateSpan, None)
   \<and> NormalizeTrace exampleEnv [lateSpan] = Inr ([lateSpan], None)"
  by (simp add: NormalizeTrace_def Normalize_def lateSpan_def exampleSpan_def exampleEnv_def
      normMetricNameParse_def isAlpha_def isAlphaNum_def MaxNameLen_def MaxServiceLen_def
      MaxTypeLen_def MaxEndDateOffset_def Year2000NanosecTS_def metaLookup_def Let_def)




section \<open>Properties of the resource filter\<close>

lemma Keep_blacklisted:
  "blacklisted R (blacklist f) (Resource t) \<Longrightarrow> Keep R f t = Inr (False, t)"
  by (simp add: Keep_def)

text \<open>
  On a span whose \<open>Meta\<close> map is not \<open>nil\<close> the two loops return; they change nothing
  but the entry \<open>http.url\<close> of \<open>Meta\<close>, and the value read there afterwards is the one
  the rules give to the value read there before.
\<close>

lemma replaceEntry_Some:
  assumes "Meta t = Some m"
  shows "\<exists>m'. replaceEntry R entry t = Inr (t\<lparr>Meta := Some m'\<rparr>)
              \<and> (\<forall>k. k \<noteq> ''http.url'' \<longrightarrow> m' k = m k)
              \<and> metaGet (Some m') ''http.url'' = rewriteUrl R entry (metaGet (Some m) ''http.url'')"
  using assms
proof (induction entry arbitrary: t m)
  case Nil
  then show ?case by (intro exI [of _ m]) simp
next
  case (Cons rule rest)
  obtain key v where rule: "rule = (key, v)" by (cases rule)
  show ?case
  proof (cases "MatchString R key (metaGet (Some m) ''http.url'')")
    case False
    then show ?thesis using Cons.IH [OF Cons.prems] Cons.prems rule by simp
  next
    case True
    let ?u = "ReplaceAllString R key (metaGet (Some m) ''http.url'') v"
    let ?t = "t\<lparr>Meta := Some (m(''http.url'' \<mapsto> ?u))\<rparr>"
    have "Meta ?t = Some (m(''http.url'' \<mapsto> ?u))" by simp
    from Cons.IH [OF this] obtain m' where m': "replaceEntry R rest ?t = Inr (?t\<lparr>Meta := Some m'\<rparr>)"
      "\<forall>k. k \<noteq> ''http.url'' \<longrightarrow> m' k = (m(''http.url'' \<mapsto> ?u)) k"
      "metaGet (Some m') ''http.url''
         = rewriteUrl R rest (metaGet (Some (m(''http.url'' \<mapsto> ?u))) ''http.url'')"
      by blast
    have g: "metaGet (Some (m(''http.url'' \<mapsto> ?u))) ''http.url'' = ?u"
      by (simp add: metaGet_def metaLookup_def)
    show ?thesis
      using True m' Cons.prems rule
      by (intro exI [of _ m']) (simp add: metaSet_def g)
  qed
qed

lemma replaceAll_Some:
  assumes "Meta t = Some m"
  shows "\<exists>m'. replaceAll R rules t = Inr (t\<lparr>Meta := Some m'\<rparr>)
              \<and> (\<forall>k. k \<noteq> ''http.url'' \<longrightarrow> m' k = m k)
              \<and> metaGet (Some m') ''http.url'' = rewriteUrl R (concat rules) (metaGet (Some m) ''http.url'')"
  using assms
proof (induction rules arbitrary: t m)
  case Nil
  then show ?case by (intro exI [of _ m]) simp
next
  case (Cons entry rules)
  from replaceEntry_Some [OF Cons.prems, of R entry] obtain m1 where
    m1: "replaceEntry R entry t = Inr (t\<lparr>Meta := Some m1\<rparr>)"
      "\<forall>k. k \<noteq> ''http.url'' \<longrightarrow> m1 k = m k"
      "metaGet (Some m1) ''http.url'' = rewriteUrl R entry (metaGet (Some m) ''http.url'')"
    by blast
  have "Meta (t\<lparr>Meta := Some m1\<rparr>) = Some m1" by simp
  from Cons.IH [OF this] obtain m' where
    m': "replaceAll R rules (t\<lparr>Meta := Some m1\<rparr>) = Inr (t\<lparr>Meta := Some m1\<rparr>\<lparr>Meta := Some m'\<rparr>)"
      "\<forall>k. k \<noteq> ''http.url'' \<longrightarrow> m' k = m1 k"
      "metaGet (Some m') ''http.url'' = rewriteUrl R (concat rules) (metaGet (Some m1) ''http.url'')"
    by blast
  have r: "rewriteUrl R (entry @ more) u = rewriteUrl R more (rewriteUrl R entry u)" for more u
    by (induction entry arbitrary: u) auto
  show ?case
    using m1 m' by (intro exI [of _ m']) (simp add: r)
qed

text \<open>
  The part of C10 that holds: a span whose resource matches an expression of the
  blacklist is dropped and left as it is; any other span whose \<open>Meta\<close> map is not \<open>nil\<close>
  is kept, with the entry \<open>http.url\<close> rewritten by the rules in order and nothing else
  changed.
\<close>

lemma Keep_on_allocated_Meta:
  assumes "Meta t = Some m"
  shows "\<exists>m'. Keep R f t = Inr (\<not> blacklisted R (blacklist f) (Resource t),
                              if blacklisted R (blacklist f) (Resource t) then t else t\<lparr>Meta := Some m'\<rparr>)
              \<and> (\<forall>k. k \<noteq> ''http.url'' \<longrightarrow> m' k = m k)
              \<and> metaGet (Some m') ''http.url''
                  = rewriteUrl R (concat (searchReplace f)) (metaGet (Some m) ''http.url'')"
  using replaceAll_Some [OF assms, of R "searchReplace f"] by (auto simp: Keep_def)

lemma compileSearchReplace_singletons:
  "\<forall>entry \<in> set (compileSearchReplace R entries). length entry = 1"
  by (induction entries) (auto split: option.splits)

text \<open>
  C10, at the failing input. The resource of \<open>nilMetaSpan\<close> matches no expression of the
  (empty) blacklist and its \<open>Meta\<close> map is \<open>nil\<close>. Reading \<open>Meta["http.url"]\<close> yields the
  empty string, the expression \<open>^$\<close> matches it, and the assignment to
  \<open>Meta["http.url"]\<close> panics: \<open>Keep\<close> does not return. The same span with an empty,
  allocated map is kept, with \<open>http.url\<close> set by the rule.
\<close>

theorem Keep_panics_on_nil_Meta:
  "emptyUrlFilter = \<lparr>blacklist = [], searchReplace = [[([], ''none'')]]\<rparr>
   \<and> \<not> blacklisted anchored (blacklist emptyUrlFilter) (Resource nilMetaSpan)
   \<and> Keep anchored emptyUrlFilter nilMetaSpan = Inl NilMapAssignment
   \<and> Keep anchored emptyUrlFilter (exampleSpan 1)
       = Inr (True, (exampleSpan 1)\<lparr>Meta := Some [''http.url'' \<mapsto> ''none'']\<rparr>)"
  by (simp add: emptyUrlFilter_def newResourceFilter_def anchored_def nilMetaSpan_def
      exampleSpan_def Keep_def metaGet_def metaLookup_def metaSet_def)

section \<open>Serialization of a summary\<close>

lemma length_putField: "length (putField k v) = k"
  by (induction k arbitrary: v) simp_all

lemma getField_snoc: "getField (bs @ [b]) = getField bs * 256 + unat b"
  by (simp add: getField_def)

lemma getField_putField: "v < 256 ^ k \<Longrightarrow> getField (putField k v) = v"
proof (induction k arbitrary: v)
  case 0
  then show ?case by (simp add: getField_def)
next
  case (Suc k)
  have "v div 256 < 256 ^ k" using Suc.prems by (simp add: less_mult_imp_div_less mult.commute)
  then have "getField (putField k (v div 256)) = v div 256" by (rule Suc.IH)
  moreover have "unat (of_nat (v mod 256) :: 8 word) = v mod 256"
    by (simp add: unat_of_nat)
  ultimately show ?case by (simp add: getField_snoc)
qed

lemma readField_putField:
  "v < 256 ^ k \<Longrightarrow> readField k (putField k v @ rest) = Some (v, rest)"
  by (simp add: readField_def length_putField getField_putField)

lemma unat_u64_fits: "unat (x :: 64 word) < 256 ^ 8"
proof -
  have "unat x < 2 ^ LENGTH(64)" by (rule unsigned_less)
  then show ?thesis by simp
qed

lemma unat_u32_fits: "unat (x :: 32 word) < 256 ^ 4"
proof -
  have "unat x < 2 ^ LENGTH(32)" by (rule unsigned_less)
  then show ?thesis by simp
qed

lemma readSamples_serialized:
  "readSamples (length xs) (concat (map (\<lambda>x. putField 8 (unat x)) xs) @ rest) = Some (xs, rest)"
proof (induction xs)
  case Nil
  show ?case by simp
next
  case (Cons x xs)
  have "readField 8 (putField 8 (unat x) @ (concat (map (\<lambda>x. putField 8 (unat x)) xs) @ rest))
        = Some (unat x, concat (map (\<lambda>x. putField 8 (unat x)) xs) @ rest)"
    by (rule readField_putField) (rule unat_u64_fits)
  then show ?case using Cons.IH by simp
qed

lemma readEntry_serialized:
  assumes "length (EntrySamples e) < 2 ^ 32"
  shows "readEntry (serializeEntry e @ rest) = Some (e, rest)"
proof -
  let ?s = "concat (map (\<lambda>x. putField 8 (unat x)) (EntrySamples e)) @ rest"
  let ?c = "putField 4 (length (EntrySamples e)) @ ?s"
  let ?d = "putField 4 (unat (EntryDelta e)) @ ?c"
  let ?g = "putField 4 (unat (EntryGap e)) @ ?d"
  have n: "length (EntrySamples e) < 256 ^ 4" using assms by simp
  have 1: "readField 8 (putField 8 (unat (EntryValue e)) @ ?g) = Some (unat (EntryValue e), ?g)"
    by (rule readField_putField) (rule unat_u64_fits)
  have 2: "readField 4 ?g = Some (unat (EntryGap e), ?d)"
    by (rule readField_putField) (rule unat_u32_fits)
  have 3: "readField 4 ?d = Some (unat (EntryDelta e), ?c)"
    by (rule readField_putField) (rule unat_u32_fits)
  have 4: "readField 4 ?c = Some (length (EntrySamples e), ?s)"
    by (rule readField_putField) (rule n)
  have 5: "readSamples (length (EntrySamples e)) ?s = Some (EntrySamples e, rest)"
    by (rule readSamples_serialized)
  show ?thesis
    by (simp add: readEntry_def serializeEntry_def 1 2 3 4 5)
qed

lemma readEntries_serialized:
  assumes "\<forall>e \<in> set es. length (EntrySamples e) < 2 ^ 32"
  shows "readEntries (length es) (concat (map serializeEntry es) @ rest) = Some (es, rest)"
  using assms
proof (induction es)
  case Nil
  show ?case by simp
next
  case (Cons e es)
  have "readEntry (serializeEntry e @ (concat (map serializeEntry es) @ rest))
        = Some (e, concat (map serializeEntry es) @ rest)"
    using Cons.prems by (intro readEntry_serialized) simp
  then show ?case using Cons by simp
qed

lemma Deserialize_Serialize:
  assumes "invariants F s"
    and "length (SummaryEntries s) < 2 ^ 32"
    and "\<forall>e \<in> set (SummaryEntries s). length (EntrySamples e) < 2 ^ 32"
  shows "Deserialize F (Serialize s) = Some s"
proof -
  let ?e = "concat (map serializeEntry (SummaryEntries s))"
  let ?c = "putField 4 (length (SummaryEntries s)) @ ?e"
  let ?n = "putField 8 (unat (SummaryN s)) @ ?c"
  have n: "length (SummaryEntries s) < 256 ^ 4" using assms(2) by simp
  have 1: "readField 8 (putField 8 (unat (SummaryEpsilon s)) @ ?n) = Some (unat (SummaryEpsilon s), ?n)"
    by (rule readField_putField) (rule unat_u64_fits)
  have 2: "readField 8 ?n = Some (unat (SummaryN s), ?c)"
    by (rule readField_putField) (rule unat_u64_fits)
  have 3: "readField 4 ?c = Some (length (SummaryEntries s), ?e)"
    by (rule readField_putField) (rule n)
  have 4: "readEntries (length (SummaryEntries s)) ?e = Some (SummaryEntries s, [])"
    using readEntries_serialized [OF assms(3), of "[]"] by simp
  have r: "\<lparr>SummaryEntries = SummaryEntries s, SummaryN = SummaryN s,
             SummaryEpsilon = SummaryEpsilon s\<rparr> = s"
    by simp
  show ?thesis
    using assms(1) by (simp add: Deserialize_def Serialize_def 1 2 3 4 r Let_def)
qed

text \<open>
  C9. A summary that satisfies the invariants of the data model, with fewer than \<open>2^32\<close>
  entries and fewer than \<open>2^32\<close> samples on each, is read back from its serialization as
  the same summary: the same \<open>N\<close>, the same \<open>\<epsilon>\<close>, and the same answer to every quantile
  query.
\<close>

theorem summary_round_trip:
  assumes "invariants F s"
    and "length (SummaryEntries s) < 2 ^ 32"
    and "\<forall>e \<in> set (SummaryEntries s). length (EntrySamples e) < 2 ^ 32"
  shows "\<exists>s'. Deserialize F (Serialize s) = Some s'
            \<and> SummaryN s' = SummaryN s \<and> SummaryEpsilon s' = SummaryEpsilon s
            \<and> (\<forall>q. Quantile F s' q = Quantile F s q)"
  using Deserialize_Serialize [OF assms] by simp

theorem summary_round_trip_witness:
  "invariants exampleOps exampleSummary
   \<and> length (SummaryEntries exampleSummary) < 2 ^ 32
   \<and> map (\<lambda>e. length (EntrySamples e)) (SummaryEntries exampleSummary) = [1, 2]
   \<and> (\<exists>s'. Deserialize exampleOps (Serialize exampleSummary) = Some s'
          \<and> Quantile exampleOps s' 0x3FE0000000000000
              = Quantile exampleOps exampleSummary 0x3FE0000000000000)
   \<and> Quantile exampleOps exampleSummary 0x3FE0000000000000 = Some (0x4000000000000000, [12, 13])"
proof -
  have h: "invariants exampleOps exampleSummary"
    "length (SummaryEntries exampleSummary) < 2 ^ 32"
    "\<forall>e \<in> set (SummaryEntries exampleSummary). length (EntrySamples e) < 2 ^ 32"
    by (simp_all add: invariants_def exampleOps_def exampleSummary_def)
  from summary_round_trip [OF h]
  have "\<exists>s'. Deserialize exampleOps (Serialize exampleSummary) = Some s'
          \<and> Quantile exampleOps s' 0x3FE0000000000000
              = Quantile exampleOps exampleSummary 0x3FE0000000000000"
    by blast
  moreover have "Quantile exampleOps exampleSummary 0x3FE0000000000000 = Some (0x4000000000000000, [12, 13])"
    by (simp add: Quantile_def exampleOps_def exampleSummary_def Let_def)
  moreover have "map (\<lambda>e. length (EntrySamples e)) (SummaryEntries exampleSummary) = [1, 2]"
    by (simp add: exampleSummary_def)
  ultimately show ?thesis using h(1,2) by blast
qed

end
